theory Spec2Isabelle
  imports Main
begin

section \<open>Expressions of the planning library\<close>

text \<open>
  The compiler works on the expression nodes (\<open>FNode\<close>) of the planning library. After
  grounding and quantifier elimination a node is a boolean or integer constant, a grounded
  fluent (a 0-ary atom, identified by its name), a negation, an n-ary conjunction or
  disjunction, or one of the five trajectory-constraint operators. Node equality
  (\<open>==\<close>, \<open>in\<close>, dictionary keys) is structural, which is equality of this datatype.
\<close>

datatype fnode =
    BoolConst bool
  | IntConst int
  | FluentExp string
  | NOT fnode
  | AND "fnode list"
  | OR "fnode list"
  | ALWAYS fnode
  | SOMETIME fnode
  | AT_MOST_ONCE fnode
  | SOMETIME_BEFORE fnode fnode
  | SOMETIME_AFTER fnode fnode

abbreviation TRUE :: fnode where "TRUE \<equiv> BoolConst True"
abbreviation FALSE :: fnode where "FALSE \<equiv> BoolConst False"

text \<open>Structural inspection: the \<open>is_*\<close> tests and \<open>args\<close> of a node.\<close>

fun is_true :: "fnode \<Rightarrow> bool" where
  "is_true (BoolConst b) = b"
| "is_true _ = False"

fun is_false :: "fnode \<Rightarrow> bool" where
  "is_false (BoolConst b) = (\<not> b)"
| "is_false _ = False"

fun is_fluent_exp :: "fnode \<Rightarrow> bool" where
  "is_fluent_exp (FluentExp f) = True"
| "is_fluent_exp _ = False"

fun is_not :: "fnode \<Rightarrow> bool" where
  "is_not (NOT x) = True"
| "is_not _ = False"

fun is_and :: "fnode \<Rightarrow> bool" where
  "is_and (AND xs) = True"
| "is_and _ = False"

fun is_or :: "fnode \<Rightarrow> bool" where
  "is_or (OR xs) = True"
| "is_or _ = False"

fun is_always :: "fnode \<Rightarrow> bool" where
  "is_always (ALWAYS x) = True"
| "is_always _ = False"

fun is_sometime :: "fnode \<Rightarrow> bool" where
  "is_sometime (SOMETIME x) = True"
| "is_sometime _ = False"

fun is_at_most_once :: "fnode \<Rightarrow> bool" where
  "is_at_most_once (AT_MOST_ONCE x) = True"
| "is_at_most_once _ = False"

fun is_sometime_before :: "fnode \<Rightarrow> bool" where
  "is_sometime_before (SOMETIME_BEFORE x y) = True"
| "is_sometime_before _ = False"

fun is_sometime_after :: "fnode \<Rightarrow> bool" where
  "is_sometime_after (SOMETIME_AFTER x y) = True"
| "is_sometime_after _ = False"

fun args :: "fnode \<Rightarrow> fnode list" where
  "args (NOT x) = [x]"
| "args (AND xs) = xs"
| "args (OR xs) = xs"
| "args (ALWAYS x) = [x]"
| "args (SOMETIME x) = [x]"
| "args (AT_MOST_ONCE x) = [x]"
| "args (SOMETIME_BEFORE x y) = [x, y]"
| "args (SOMETIME_AFTER x y) = [x, y]"
| "args _ = []"

text \<open>Python exceptions the compiler can end with.\<close>

datatype error =
    UPProblemDefinitionError string
  | UPUsageError string
  | Exception string
  | IndexError
  | KeyError
  | AttributeError

text \<open>\<open>node.args[i]\<close>: an index outside the tuple raises \<open>IndexError\<close>.\<close>

definition arg_at :: "fnode \<Rightarrow> nat \<Rightarrow> error + fnode" where
  "arg_at e i = (if i < length (args e) then Inr (args e ! i) else Inl IndexError)"

subsection \<open>The expression manager\<close>

text \<open>
  Modelled from the spec: the constructors of the expression substrate (section 2, component 1,
  "offers construction"), which are not in the sources. \<open>And\<close> and \<open>Or\<close> take the list of
  their arguments: the empty conjunction is the constant true, the empty disjunction the
  constant false, a single argument is returned as it is, and two or more arguments make an
  n-ary node. \<open>Not\<close> makes a negation node and does not simplify.
\<close>

definition em_And :: "fnode list \<Rightarrow> fnode" where
  "em_And xs = (case xs of [] \<Rightarrow> TRUE | [x] \<Rightarrow> x | _ \<Rightarrow> AND xs)"

definition em_Or :: "fnode list \<Rightarrow> fnode" where
  "em_Or xs = (case xs of [] \<Rightarrow> FALSE | [x] \<Rightarrow> x | _ \<Rightarrow> OR xs)"

definition em_Not :: "fnode \<Rightarrow> fnode" where
  "em_Not x = NOT x"

text \<open>
  A Python value that is either an expression node or a plain \<open>bool\<close>: \<open>_gamma\<close> returns the
  Python constant \<open>False\<close>, and \<open>_evaluate_constraint\<close> applies Python's \<open>or\<close> and \<open>not\<close> to
  nodes. A node object defines no truth value of its own, so it is truthy; \<open>x or y\<close> is \<open>x\<close>
  when \<open>x\<close> is truthy and \<open>y\<close> otherwise; \<open>not x\<close> is a \<open>bool\<close>. The expression manager
  promotes a \<open>bool\<close> argument to the boolean constant (\<open>auto_promote\<close>).
\<close>

datatype pyval = Node fnode | PyBool bool

fun truthy :: "pyval \<Rightarrow> bool" where
  "truthy (Node e) = True"
| "truthy (PyBool b) = b"

definition py_or :: "pyval \<Rightarrow> pyval \<Rightarrow> pyval" where
  "py_or x y = (if truthy x then x else y)"

definition py_not :: "pyval \<Rightarrow> pyval" where
  "py_not x = PyBool (\<not> truthy x)"

fun auto_promote :: "pyval \<Rightarrow> fnode" where
  "auto_promote (Node e) = e"
| "auto_promote (PyBool b) = BoolConst b"

text \<open>\<open>value.is_true()\<close> on a Python value: a \<open>bool\<close> has no such method.\<close>

fun py_is_true :: "pyval \<Rightarrow> error + bool" where
  "py_is_true (Node e) = Inr (is_true e)"
| "py_is_true (PyBool b) = Inl AttributeError"

subsection \<open>Simplification\<close>

text \<open>
  Modelled from the spec: \<open>simplify\<close> of the expression substrate (section 2, component 1;
  section 9 asks for a deterministic canonicalisation), which is not in the sources. The
  simplifier rewrites bottom-up. A negation of a constant is the other constant and a double
  negation is dropped. A conjunction drops the constant true, is false as soon as an argument
  is false or an argument's complement was already kept, takes the arguments of a nested
  conjunction as its own, keeps the first occurrence of every argument in order, and is
  rebuilt from what is left (true for none, the argument itself for one). A disjunction is
  the dual. Constants, fluents and trajectory-constraint operators are kept, the latter over
  their simplified arguments.
\<close>

fun walk_not :: "fnode \<Rightarrow> fnode" where
  "walk_not (BoolConst b) = BoolConst (\<not> b)"
| "walk_not (NOT x) = x"
| "walk_not x = NOT x"

fun nary_insert :: "fnode list \<Rightarrow> fnode list \<Rightarrow> fnode list option" where
  "nary_insert new_args [] = Some new_args"
| "nary_insert new_args (s # ss) =
     (if walk_not s \<in> set new_args then None
      else nary_insert (if s \<in> set new_args then new_args else new_args @ [s]) ss)"

fun and_scan :: "fnode list \<Rightarrow> fnode list \<Rightarrow> fnode list option" where
  "and_scan new_args [] = Some new_args"
| "and_scan new_args (a # as) =
     (if is_true a then and_scan new_args as
      else if is_false a then None
      else (case nary_insert new_args (if is_and a then args a else [a]) of
              None \<Rightarrow> None
            | Some new_args' \<Rightarrow> and_scan new_args' as))"

definition walk_and :: "fnode list \<Rightarrow> fnode" where
  "walk_and as =
     (if length as = 2 \<and> as ! 0 = as ! 1 then as ! 0
      else (case and_scan [] as of
              None \<Rightarrow> FALSE
            | Some [] \<Rightarrow> TRUE
            | Some [x] \<Rightarrow> x
            | Some new_args \<Rightarrow> AND new_args))"

fun or_scan :: "fnode list \<Rightarrow> fnode list \<Rightarrow> fnode list option" where
  "or_scan new_args [] = Some new_args"
| "or_scan new_args (a # as) =
     (if is_false a then or_scan new_args as
      else if is_true a then None
      else (case nary_insert new_args (if is_or a then args a else [a]) of
              None \<Rightarrow> None
            | Some new_args' \<Rightarrow> or_scan new_args' as))"

definition walk_or :: "fnode list \<Rightarrow> fnode" where
  "walk_or as =
     (if length as = 2 \<and> as ! 0 = as ! 1 then as ! 0
      else (case or_scan [] as of
              None \<Rightarrow> TRUE
            | Some [] \<Rightarrow> FALSE
            | Some [x] \<Rightarrow> x
            | Some new_args \<Rightarrow> OR new_args))"

fun simplify :: "fnode \<Rightarrow> fnode" where
  "simplify (BoolConst b) = BoolConst b"
| "simplify (IntConst i) = IntConst i"
| "simplify (FluentExp f) = FluentExp f"
| "simplify (NOT x) = walk_not (simplify x)"
| "simplify (AND xs) = walk_and (map simplify xs)"
| "simplify (OR xs) = walk_or (map simplify xs)"
| "simplify (ALWAYS x) = ALWAYS (simplify x)"
| "simplify (SOMETIME x) = SOMETIME (simplify x)"
| "simplify (AT_MOST_ONCE x) = AT_MOST_ONCE (simplify x)"
| "simplify (SOMETIME_BEFORE x y) = SOMETIME_BEFORE (simplify x) (simplify y)"
| "simplify (SOMETIME_AFTER x y) = SOMETIME_AFTER (simplify x) (simplify y)"

subsection \<open>Substitution and free fluents\<close>

text \<open>
  Modelled from the spec: \<open>substitute\<close> and \<open>free_vars\<close> of the expression substrate, which
  are not in the sources. \<open>substitute e m\<close> replaces every outermost sub-expression of \<open>e\<close>
  that is a key of the dictionary \<open>m\<close> by its value and rebuilds the rest unchanged;
  \<open>free_vars e\<close> is the set of fluent atoms of \<open>e\<close>, here a list without repetition.
\<close>

fun substitute :: "fnode \<Rightarrow> (fnode \<rightharpoonup> fnode) \<Rightarrow> fnode" where
  "substitute (BoolConst b) m = (case m (BoolConst b) of Some v \<Rightarrow> v | None \<Rightarrow> BoolConst b)"
| "substitute (IntConst i) m = (case m (IntConst i) of Some v \<Rightarrow> v | None \<Rightarrow> IntConst i)"
| "substitute (FluentExp f) m = (case m (FluentExp f) of Some v \<Rightarrow> v | None \<Rightarrow> FluentExp f)"
| "substitute (NOT x) m =
     (case m (NOT x) of Some v \<Rightarrow> v | None \<Rightarrow> NOT (substitute x m))"
| "substitute (AND xs) m =
     (case m (AND xs) of Some v \<Rightarrow> v | None \<Rightarrow> AND (map (\<lambda>x. substitute x m) xs))"
| "substitute (OR xs) m =
     (case m (OR xs) of Some v \<Rightarrow> v | None \<Rightarrow> OR (map (\<lambda>x. substitute x m) xs))"
| "substitute (ALWAYS x) m =
     (case m (ALWAYS x) of Some v \<Rightarrow> v | None \<Rightarrow> ALWAYS (substitute x m))"
| "substitute (SOMETIME x) m =
     (case m (SOMETIME x) of Some v \<Rightarrow> v | None \<Rightarrow> SOMETIME (substitute x m))"
| "substitute (AT_MOST_ONCE x) m =
     (case m (AT_MOST_ONCE x) of Some v \<Rightarrow> v | None \<Rightarrow> AT_MOST_ONCE (substitute x m))"
| "substitute (SOMETIME_BEFORE x y) m =
     (case m (SOMETIME_BEFORE x y) of Some v \<Rightarrow> v
      | None \<Rightarrow> SOMETIME_BEFORE (substitute x m) (substitute y m))"
| "substitute (SOMETIME_AFTER x y) m =
     (case m (SOMETIME_AFTER x y) of Some v \<Rightarrow> v
      | None \<Rightarrow> SOMETIME_AFTER (substitute x m) (substitute y m))"

fun fluent_exps :: "fnode \<Rightarrow> fnode list" where
  "fluent_exps (BoolConst b) = []"
| "fluent_exps (IntConst i) = []"
| "fluent_exps (FluentExp f) = [FluentExp f]"
| "fluent_exps (NOT x) = fluent_exps x"
| "fluent_exps (AND xs) = concat (map fluent_exps xs)"
| "fluent_exps (OR xs) = concat (map fluent_exps xs)"
| "fluent_exps (ALWAYS x) = fluent_exps x"
| "fluent_exps (SOMETIME x) = fluent_exps x"
| "fluent_exps (AT_MOST_ONCE x) = fluent_exps x"
| "fluent_exps (SOMETIME_BEFORE x y) = fluent_exps x @ fluent_exps y"
| "fluent_exps (SOMETIME_AFTER x y) = fluent_exps x @ fluent_exps y"

definition free_vars :: "fnode \<Rightarrow> fnode list" where
  "free_vars e = remdups (fluent_exps e)"

section \<open>Effects, actions and problems\<close>

text \<open>
  An effect assigns \<open>effect_value\<close> to the fluent atom \<open>fluent\<close> when \<open>condition\<close> holds
  (\<open>eff.value\<close> in the source; \<open>value\<close> is a keyword here). A grounded instantaneous action
  has a name, a list of preconditions and a list of effects. The grounded problem is what the
  grounder returns: \<open>initial_values\<close> is the dictionary from fluent atoms to their initial
  values.
\<close>

record effect =
  condition :: fnode
  fluent :: fnode
  effect_value :: fnode

record action =
  name :: string
  preconditions :: "fnode list"
  effects :: "effect list"

datatype up_type = BoolType | IntType

datatype fluent_decl = Fluent string up_type

record problem =
  problem_name :: string
  fluents :: "fluent_decl list"
  actions :: "action list"
  initial_values :: "fnode \<rightharpoonup> fnode"
  goals :: "fnode list"
  trajectory_constraints :: "fnode list"

section \<open>Regression\<close>

text \<open>
  \<open>_gamma\<close>: the loop over the effects of the action returns the constant true at the first
  unconditional effect that asserts the literal, and otherwise collects the conditions; with
  nothing collected it returns Python's \<open>False\<close>.
\<close>

fun gamma_loop :: "fnode \<Rightarrow> effect list \<Rightarrow> fnode list \<Rightarrow> pyval" where
  "gamma_loop literal [] disjunction =
     (if disjunction = [] then PyBool False else Node (em_Or disjunction))"
| "gamma_loop literal (eff # effs) disjunction =
     (let cond = condition eff;
          lit = (if is_false (effect_value eff) then em_Not (fluent eff) else fluent eff)
      in if literal = lit
         then (if is_true cond then Node TRUE
               else gamma_loop literal effs (disjunction @ [cond]))
         else gamma_loop literal effs disjunction)"

definition gamma :: "fnode \<Rightarrow> action \<Rightarrow> pyval" where
  "gamma literal a = gamma_loop literal (effects a) []"

definition gamma_substitution :: "fnode \<Rightarrow> action \<Rightarrow> fnode" where
  "gamma_substitution literal a =
     (let negated_literal = em_Not literal;
          gamma1 = gamma literal a;
          gamma2 = em_Not (auto_promote (gamma negated_literal a));
          conjunction = em_And [literal, gamma2]
      in em_Or [auto_promote gamma1, conjunction])"

fun regression :: "fnode \<Rightarrow> action \<Rightarrow> error + fnode"
  and regression_list :: "fnode list \<Rightarrow> action \<Rightarrow> error + fnode list" where
  "regression (BoolConst b) a = Inr (BoolConst b)"
| "regression (FluentExp f) a = Inr (gamma_substitution (FluentExp f) a)"
| "regression (OR xs) a =
     (case regression_list xs a of Inl e \<Rightarrow> Inl e | Inr ys \<Rightarrow> Inr (em_Or ys))"
| "regression (AND xs) a =
     (case regression_list xs a of Inl e \<Rightarrow> Inl e | Inr ys \<Rightarrow> Inr (em_And ys))"
| "regression (NOT x) a =
     (case regression x a of Inl e \<Rightarrow> Inl e | Inr y \<Rightarrow> Inr (em_Not y))"
| "regression (IntConst i) a = Inl (UPUsageError ''This compiler cannot handle this expression'')"
| "regression (ALWAYS x) a = Inl (UPUsageError ''This compiler cannot handle this expression'')"
| "regression (SOMETIME x) a = Inl (UPUsageError ''This compiler cannot handle this expression'')"
| "regression (AT_MOST_ONCE x) a =
     Inl (UPUsageError ''This compiler cannot handle this expression'')"
| "regression (SOMETIME_BEFORE x y) a =
     Inl (UPUsageError ''This compiler cannot handle this expression'')"
| "regression (SOMETIME_AFTER x y) a =
     Inl (UPUsageError ''This compiler cannot handle this expression'')"
| "regression_list [] a = Inr []"
| "regression_list (x # xs) a =
     (case regression x a of
        Inl e \<Rightarrow> Inl e
      | Inr y \<Rightarrow> (case regression_list xs a of Inl e \<Rightarrow> Inl e | Inr ys \<Rightarrow> Inr (y # ys)))"

section \<open>The trajectory-constraints remover\<close>

subsection \<open>Module constants and small helpers\<close>

definition HOLD :: string where "HOLD = ''hold''"
definition SEEN_PHI :: string where "SEEN_PHI = ''seen-phi''"
definition SEEN_PSI :: string where "SEEN_PSI = ''seen-psi''"
definition SEPARATOR :: string where "SEPARATOR = ''-''"

text \<open>Decimal rendering of the counter, as an f-string prints a non-negative \<open>int\<close>.\<close>

definition digit_char :: "nat \<Rightarrow> char" where
  "digit_char n = ''0123456789'' ! n"

fun string_of_nat :: "nat \<Rightarrow> string" where
  "string_of_nat n =
     (if n < 10 then [digit_char n] else string_of_nat (n div 10) @ [digit_char (n mod 10)])"

declare string_of_nat.simps [simp del]

text \<open>An f-string prints the \<open>type\<close> tag, which is a string or \<open>None\<close>.\<close>

definition py_str :: "string option \<Rightarrow> string" where
  "py_str t = (case t of None \<Rightarrow> ''None'' | Some s \<Rightarrow> s)"

text \<open>A loop whose body may raise: the first error ends it.\<close>

fun fold_err :: "('a \<Rightarrow> 's \<Rightarrow> error + 's) \<Rightarrow> 'a list \<Rightarrow> 's \<Rightarrow> error + 's" where
  "fold_err f [] s = Inr s"
| "fold_err f (x # xs) s = (case f x s of Inl e \<Rightarrow> Inl e | Inr s' \<Rightarrow> fold_err f xs s')"

subsection \<open>The constraint list\<close>

text \<open>
  Modelled from the spec: the universal-quantifier eliminator (section 4.2, step 3, "returns
  a quantifier-free formula"), which is not in the sources. The nodes of this development
  are quantifier-free, and on those the eliminator returns its argument; for the same reason
  the assertion that no constraint is an existential always passes.
\<close>

definition remove_quantifiers :: "fnode \<Rightarrow> fnode" where
  "remove_quantifiers c = c"

definition remove_quantifier :: "fnode list \<Rightarrow> fnode list" where
  "remove_quantifier C = map remove_quantifiers C"

definition build_constraint_list :: "fnode list \<Rightarrow> fnode list" where
  "build_constraint_list constraints =
     (let C_temp = simplify (em_And constraints);
          C_list = (if is_and C_temp then args C_temp else [C_temp]);
          C_to_return = simplify (em_And (remove_quantifier C_list))
      in if is_and C_to_return then args C_to_return else [C_to_return])"

subsection \<open>Relevancy\<close>

definition build_relevancy_dict :: "fnode list \<Rightarrow> (fnode \<rightharpoonup> fnode list)" where
  "build_relevancy_dict C =
     fold (\<lambda>c relevancy_dict.
             fold (\<lambda>atom rd. rd(atom \<mapsto> (case rd atom of None \<Rightarrow> [] | Some l \<Rightarrow> l) @ [c]))
                  (free_vars c) relevancy_dict)
          C Map.empty"

definition get_relevant_constraints :: "action \<Rightarrow> (fnode \<rightharpoonup> fnode list) \<Rightarrow> fnode list" where
  "get_relevant_constraints a relevancy_dict =
     fold (\<lambda>eff relevant_constrains.
             fold (\<lambda>c rel. if c \<notin> set rel then rel @ [c] else rel)
                  (case relevancy_dict (fluent eff) of None \<Rightarrow> [] | Some l \<Rightarrow> l)
                  relevant_constrains)
          (effects a) []"

subsection \<open>The grounded initial state and the monitoring atoms\<close>

definition ground_initial_state :: "action list \<Rightarrow> (fnode \<rightharpoonup> fnode) \<Rightarrow> (fnode \<rightharpoonup> fnode)" where
  "ground_initial_state acts initial_vals =
     (let grounding_init_state = concat (map (\<lambda>act. map fluent (effects act)) acts)
      in fold (\<lambda>key_gr grounded_initial_state.
                 (case initial_vals key_gr of
                    None \<Rightarrow> grounded_initial_state
                  | Some initial_value \<Rightarrow>
                      if is_true initial_value
                      then grounded_initial_state(key_gr \<mapsto> initial_value)
                      else grounded_initial_state))
              grounding_init_state Map.empty)"

fun evaluate_constraint :: "fnode \<Rightarrow> (fnode \<rightharpoonup> fnode) \<Rightarrow> error + (string option \<times> pyval)" where
  "evaluate_constraint (SOMETIME x) init_values =
     Inr (Some HOLD, Node (simplify (substitute x init_values)))"
| "evaluate_constraint (SOMETIME_AFTER x y) init_values =
     Inr (Some HOLD,
          py_or (Node (simplify (substitute y init_values)))
                (py_not (Node (simplify (substitute x init_values)))))"
| "evaluate_constraint (SOMETIME_BEFORE x y) init_values =
     Inr (Some SEEN_PSI, Node (simplify (substitute y init_values)))"
| "evaluate_constraint (AT_MOST_ONCE x) init_values =
     Inr (Some SEEN_PHI, Node (simplify (substitute x init_values)))"
| "evaluate_constraint constr init_values =
     (case arg_at constr 0 of
        Inl e \<Rightarrow> Inl e
      | Inr x \<Rightarrow> Inr (None, Node (simplify (substitute x init_values))))"

text \<open>
  The state of the loop of \<open>_get_monitoring_atoms\<close>: the list \<open>monitoring_atoms\<close>, the
  counter, the list \<open>initial_state_prime\<close> and the dictionary \<open>_monitoring_atom_dict\<close> of the
  compiler instance.
\<close>

type_synonym monitor_state = "fluent_decl list \<times> nat \<times> fnode list \<times> (fnode \<rightharpoonup> fnode)"

definition monitoring_step :: "(fnode \<rightharpoonup> fnode) \<Rightarrow> fnode \<Rightarrow> monitor_state \<Rightarrow> error + monitor_state" where
  "monitoring_step I constr st =
     (case st of (monitoring_atoms, monitoring_atoms_counter, initial_state_prime, d) \<Rightarrow>
       (case constr of
          ALWAYS x \<Rightarrow>
            if is_false (simplify (substitute x I))
            then Inl (UPProblemDefinitionError
                   ''PROBLEM NOT SOLVABLE: an always is violated in the initial state'')
            else Inr st
        | _ \<Rightarrow>
            (case evaluate_constraint constr I of
               Inl e \<Rightarrow> Inl e
             | Inr (type, init_state_value) \<Rightarrow>
                 (let fluent_name = py_str type @ SEPARATOR @ string_of_nat monitoring_atoms_counter;
                      monitoring_atom = FluentExp fluent_name
                  in (case py_is_true init_state_value of
                        Inl e \<Rightarrow> Inl e
                      | Inr holds \<Rightarrow>
                          if (case constr of
                                SOMETIME_BEFORE x y \<Rightarrow> is_true (simplify (substitute x I))
                              | _ \<Rightarrow> False)
                          then Inl (UPProblemDefinitionError
                                 ''PROBLEM NOT SOLVABLE: a sometime-before is violated in the initial state'')
                          else Inr (monitoring_atoms @ [Fluent fluent_name BoolType],
                                    Suc monitoring_atoms_counter,
                                    (if holds then initial_state_prime @ [monitoring_atom]
                                     else initial_state_prime),
                                    d(constr \<mapsto> monitoring_atom)))))))"

definition get_monitoring_atoms ::
    "(fnode \<rightharpoonup> fnode) \<Rightarrow> fnode list \<Rightarrow> (fnode \<rightharpoonup> fnode)
      \<Rightarrow> error + (fnode list \<times> fluent_decl list \<times> (fnode \<rightharpoonup> fnode))" where
  "get_monitoring_atoms d0 C I =
     (case fold_err (monitoring_step I) C ([], 0, [], d0) of
        Inl e \<Rightarrow> Inl e
      | Inr (monitoring_atoms, monitoring_atoms_counter, initial_state_prime, d) \<Rightarrow>
          Inr (initial_state_prime, monitoring_atoms, d))"

definition get_landmark_constraints :: "fnode list \<Rightarrow> fnode list" where
  "get_landmark_constraints C = filter (\<lambda>constr. is_sometime constr \<or> is_sometime_after constr) C"

text \<open>\<open>[self._monitoring_atom_dict[c] for c in ...]\<close>: a missing key raises \<open>KeyError\<close>.\<close>

fun lookup_all :: "(fnode \<rightharpoonup> fnode) \<Rightarrow> fnode list \<Rightarrow> error + fnode list" where
  "lookup_all d [] = Inr []"
| "lookup_all d (c # cs) =
     (case d c of
        None \<Rightarrow> Inl KeyError
      | Some m \<Rightarrow> (case lookup_all d cs of Inl e \<Rightarrow> Inl e | Inr ms \<Rightarrow> Inr (m # ms)))"

subsection \<open>The rewriting rules\<close>

definition add_cond_eff :: "effect list \<Rightarrow> fnode \<Rightarrow> fnode \<Rightarrow> effect list" where
  "add_cond_eff E cond eff =
     (if \<not> is_false (simplify cond)
      then (case eff of
              NOT x \<Rightarrow> E @ [\<lparr>condition = cond, fluent = x, effect_value = FALSE\<rparr>]
            | _ \<Rightarrow> E @ [\<lparr>condition = cond, fluent = eff, effect_value = TRUE\<rparr>])
      else E)"

definition manage_always_compilation :: "fnode \<Rightarrow> action \<Rightarrow> error + (fnode option \<times> bool)" where
  "manage_always_compilation phi a =
     (case regression phi a of
        Inl e \<Rightarrow> Inl e
      | Inr r \<Rightarrow> (let R = simplify r in if R = phi then Inr (None, False) else Inr (Some R, True)))"

definition manage_amo_compilation ::
    "fnode \<Rightarrow> fnode \<Rightarrow> action \<Rightarrow> effect list \<Rightarrow> error + ((fnode option \<times> bool) \<times> effect list)" where
  "manage_amo_compilation phi m_atom a E =
     (case regression phi a of
        Inl e \<Rightarrow> Inl e
      | Inr r \<Rightarrow>
          (let R = simplify r
           in if R = phi then Inr ((None, False), E)
              else (let rho = simplify (em_Or [em_Not R, em_Not m_atom, phi])
                    in Inr ((Some rho, True), add_cond_eff E R m_atom))))"

definition manage_sb_compilation ::
    "fnode \<Rightarrow> fnode \<Rightarrow> fnode \<Rightarrow> action \<Rightarrow> effect list
      \<Rightarrow> error + ((fnode option \<times> bool) \<times> effect list)" where
  "manage_sb_compilation phi psi m_atom a E =
     (case regression phi a of
        Inl e \<Rightarrow> Inl e
      | Inr r_phi \<Rightarrow>
          (let R_phi = simplify r_phi;
               added_precond =
                 (if R_phi = phi then (None, False)
                  else (Some (simplify (em_Or [em_Not R_phi, m_atom])), True))
           in (case regression psi a of
                 Inl e \<Rightarrow> Inl e
               | Inr r_psi \<Rightarrow>
                   (let R_psi = simplify r_psi
                    in Inr (added_precond,
                            (if R_psi \<noteq> psi then add_cond_eff E R_psi m_atom else E))))))"

definition manage_sometime_compilation ::
    "fnode \<Rightarrow> fnode \<Rightarrow> action \<Rightarrow> effect list \<Rightarrow> error + effect list" where
  "manage_sometime_compilation phi m_atom a E =
     (case regression phi a of
        Inl e \<Rightarrow> Inl e
      | Inr r \<Rightarrow> (let R = simplify r in Inr (if R \<noteq> phi then add_cond_eff E R m_atom else E)))"

definition manage_sa_compilation ::
    "fnode \<Rightarrow> fnode \<Rightarrow> fnode \<Rightarrow> action \<Rightarrow> effect list \<Rightarrow> error + effect list" where
  "manage_sa_compilation phi psi m_atom a E =
     (case regression phi a of
        Inl e \<Rightarrow> Inl e
      | Inr r1 \<Rightarrow>
          (case regression psi a of
             Inl e \<Rightarrow> Inl e
           | Inr r2 \<Rightarrow>
               (let R1 = simplify r1;
                    R2 = simplify r2;
                    E1 = (if phi \<noteq> R1 \<or> psi \<noteq> R2
                          then add_cond_eff E (simplify (em_And [R1, em_Not R2])) (em_Not m_atom)
                          else E)
                in Inr (if psi \<noteq> R2 then add_cond_eff E1 R2 m_atom else E1))))"

subsection \<open>The loop over the actions\<close>

text \<open>
  \<open>if to_add and not precondition.is_true(): a.preconditions.append(precondition)\<close>; the
  precondition is \<open>None\<close> only together with \<open>to_add = False\<close>.
\<close>

definition append_precondition :: "fnode list \<Rightarrow> fnode option \<Rightarrow> bool \<Rightarrow> error + fnode list" where
  "append_precondition pre precondition to_add =
     (if to_add
      then (case precondition of
              None \<Rightarrow> Inl AttributeError
            | Some p \<Rightarrow> Inr (if \<not> is_true p then pre @ [p] else pre))
      else Inr pre)"

text \<open>
  One round of the loop over the relevant constraints of an action \<open>a\<close>. The state is the
  precondition list of \<open>a\<close> (appended to in place) and the list \<open>E\<close> of new effects; the
  effects of \<open>a\<close>, which regression reads, change only after the loop.
\<close>

definition compile_constraint ::
    "(fnode \<rightharpoonup> fnode) \<Rightarrow> action \<Rightarrow> fnode \<Rightarrow> fnode list \<times> effect list
      \<Rightarrow> error + (fnode list \<times> effect list)" where
  "compile_constraint d a c st =
     (case st of (pre, E) \<Rightarrow>
       (case c of
          ALWAYS phi \<Rightarrow>
            (case manage_always_compilation phi a of
               Inl e \<Rightarrow> Inl e
             | Inr (precondition, to_add) \<Rightarrow>
                 (case append_precondition pre precondition to_add of
                    Inl e \<Rightarrow> Inl e
                  | Inr pre' \<Rightarrow> Inr (pre', E)))
        | AT_MOST_ONCE phi \<Rightarrow>
            (case d c of
               None \<Rightarrow> Inl KeyError
             | Some m_atom \<Rightarrow>
                 (case manage_amo_compilation phi m_atom a E of
                    Inl e \<Rightarrow> Inl e
                  | Inr ((precondition, to_add), E') \<Rightarrow>
                      (case append_precondition pre precondition to_add of
                         Inl e \<Rightarrow> Inl e
                       | Inr pre' \<Rightarrow> Inr (pre', E'))))
        | SOMETIME_BEFORE phi psi \<Rightarrow>
            (case d c of
               None \<Rightarrow> Inl KeyError
             | Some m_atom \<Rightarrow>
                 (case manage_sb_compilation phi psi m_atom a E of
                    Inl e \<Rightarrow> Inl e
                  | Inr ((precondition, to_add), E') \<Rightarrow>
                      (case append_precondition pre precondition to_add of
                         Inl e \<Rightarrow> Inl e
                       | Inr pre' \<Rightarrow> Inr (pre', E'))))
        | SOMETIME phi \<Rightarrow>
            (case d c of
               None \<Rightarrow> Inl KeyError
             | Some m_atom \<Rightarrow>
                 (case manage_sometime_compilation phi m_atom a E of
                    Inl e \<Rightarrow> Inl e
                  | Inr E' \<Rightarrow> Inr (pre, E')))
        | SOMETIME_AFTER phi psi \<Rightarrow>
            (case d c of
               None \<Rightarrow> Inl KeyError
             | Some m_atom \<Rightarrow>
                 (case manage_sa_compilation phi psi m_atom a E of
                    Inl e \<Rightarrow> Inl e
                  | Inr E' \<Rightarrow> Inr (pre, E')))
        | _ \<Rightarrow> Inl (Exception ''ERROR This compiler cannot handle this constraint'')))"

definition compile_action ::
    "(fnode \<rightharpoonup> fnode) \<Rightarrow> (fnode \<rightharpoonup> fnode list) \<Rightarrow> action \<Rightarrow> error + action" where
  "compile_action d relevancy_dict a =
     (case fold_err (compile_constraint d a) (get_relevant_constraints a relevancy_dict)
             (preconditions a, []) of
        Inl e \<Rightarrow> Inl e
      | Inr (pre, E) \<Rightarrow> Inr (a\<lparr>preconditions := pre, effects := effects a @ E\<rparr>))"

text \<open>
  The loop \<open>for a in A\<close>: the rewritten action is appended to \<open>A_prime\<close> unless the constant
  false is among its preconditions.
\<close>

fun compile_actions ::
    "(fnode \<rightharpoonup> fnode) \<Rightarrow> (fnode \<rightharpoonup> fnode list) \<Rightarrow> action list \<Rightarrow> action list
      \<Rightarrow> error + action list" where
  "compile_actions d relevancy_dict [] A_prime = Inr A_prime"
| "compile_actions d relevancy_dict (a # A) A_prime =
     (case compile_action d relevancy_dict a of
        Inl e \<Rightarrow> Inl e
      | Inr a' \<Rightarrow>
          compile_actions d relevancy_dict A
            (if FALSE \<notin> set (preconditions a') then A_prime @ [a'] else A_prime))"

subsection \<open>The compiler\<close>

text \<open>
  \<open>_compile\<close>, from the grounder's result on. \<open>d0\<close> is the dictionary
  \<open>_monitoring_atom_dict\<close> of the compiler instance when the call starts (empty for a new
  instance; the source never clears it), \<open>original_name\<close> the name of the problem given to
  the compiler and \<open>gp\<close> the grounded problem. The result is the new problem and the
  dictionary after the call. The map from the rewritten actions back to the lifted ones, which
  only the plan lifter reads, is left out, and so are the checks of the problem model itself
  (such as a fluent name that is already in use), which are not in the sources.
\<close>

definition compile ::
    "(fnode \<rightharpoonup> fnode) \<Rightarrow> string \<Rightarrow> problem \<Rightarrow> error + (problem \<times> (fnode \<rightharpoonup> fnode))" where
  "compile d0 original_name gp =
     (let A = actions gp;
          I = ground_initial_state A (initial_values gp);
          C = build_constraint_list (trajectory_constraints gp);
          relevancy_dict = build_relevancy_dict C
      in (case get_monitoring_atoms d0 C I of
            Inl e \<Rightarrow> Inl e
          | Inr (I_prime, F_prime, d) \<Rightarrow>
              (case lookup_all d (get_landmark_constraints C) of
                 Inl e \<Rightarrow> Inl e
               | Inr monitors \<Rightarrow>
                   (let G_prime = em_And monitors
                    in (case compile_actions d relevancy_dict A [] of
                          Inl e \<Rightarrow> Inl e
                        | Inr A_prime \<Rightarrow>
                            (let G_new = simplify (em_And (goals gp @ [G_prime]))
                             in Inr (\<lparr>problem_name = ''TrajectoryConstraintsRemover_'' @ original_name,
                                      fluents = fluents gp @ F_prime,
                                      actions = A_prime,
                                      initial_values =
                                        fold (\<lambda>init_val iv. iv(init_val \<mapsto> TRUE)) I_prime
                                          (initial_values gp),
                                      goals = [G_new],
                                      trajectory_constraints = []\<rparr>, d)))))))"

section \<open>Notions used to state the properties\<close>

subsection \<open>Formulas, written fluents, conjuncts, tags\<close>

text \<open>
  A formula built from constants, fluent atoms, negation, conjunction and disjunction. The
  expression manager never builds a conjunction or disjunction node of fewer than two
  arguments, so such nodes are not formulas.
\<close>

fun bool_formula :: "fnode \<Rightarrow> bool" where
  "bool_formula (BoolConst b) = True"
| "bool_formula (FluentExp f) = True"
| "bool_formula (NOT x) = bool_formula x"
| "bool_formula (AND xs) = (2 \<le> length xs \<and> list_all bool_formula xs)"
| "bool_formula (OR xs) = (2 \<le> length xs \<and> list_all bool_formula xs)"
| "bool_formula _ = False"

text \<open>The fluents the effects of an action, or of a list of actions, write.\<close>

definition written :: "action \<Rightarrow> fnode set" where
  "written a = fluent ` set (effects a)"

definition written_by :: "action list \<Rightarrow> fnode set" where
  "written_by A = (\<Union>a \<in> set A. written a)"

text \<open>An action is well formed when every effect writes a fluent atom.\<close>

definition wf_action :: "action \<Rightarrow> bool" where
  "wf_action a = list_all (\<lambda>eff. is_fluent_exp (fluent eff)) (effects a)"

text \<open>The conjuncts of a goal: the arguments of a conjunction, the formula itself otherwise.\<close>

definition conjuncts :: "fnode \<Rightarrow> fnode set" where
  "conjuncts g = (case g of AND xs \<Rightarrow> set xs | _ \<Rightarrow> {g})"

text \<open>
  The monitor tag the specification gives each kind of constraint that is monitored
  (section 4.5); any other node prints as \<open>None\<close>, as the tag \<open>None\<close> of the source does.
\<close>

fun monitor_tag :: "fnode \<Rightarrow> string" where
  "monitor_tag (SOMETIME x) = ''hold''"
| "monitor_tag (SOMETIME_AFTER x y) = ''hold''"
| "monitor_tag (SOMETIME_BEFORE x y) = ''seen-psi''"
| "monitor_tag (AT_MOST_ONCE x) = ''seen-phi''"
| "monitor_tag _ = ''None''"

definition monitor_name :: "fnode \<Rightarrow> nat \<Rightarrow> string" where
  "monitor_name c n = monitor_tag c @ ''-'' @ string_of_nat n"

text \<open>Reading a decimal string back, to show that the rendering of the counter is injective.\<close>

definition digit_val :: "char \<Rightarrow> nat" where
  "digit_val c = length (takeWhile (\<lambda>d. d \<noteq> c) ''0123456789'')"

definition nat_of_string :: "string \<Rightarrow> nat" where
  "nat_of_string s = foldl (\<lambda>acc c. 10 * acc + digit_val c) 0 s"

subsection \<open>Plans and trajectory constraints, as the specification words them\<close>

text \<open>
  The semantics the round-trip property of the specification refers to (section 3): a state
  gives every fluent a truth value, with the closed-world reading of the initial values
  (absence is false); an action is applicable when its preconditions hold; its effects whose
  condition holds in the state before the action are applied; a plan is a list of action
  names and runs through the sequence of states it visits.
\<close>

type_synonym state = "string \<Rightarrow> bool"

fun holds :: "state \<Rightarrow> fnode \<Rightarrow> bool" where
  "holds s (BoolConst b) = b"
| "holds s (FluentExp f) = s f"
| "holds s (NOT x) = (\<not> holds s x)"
| "holds s (AND xs) = list_all (holds s) xs"
| "holds s (OR xs) = list_ex (holds s) xs"
| "holds s _ = False"

definition initial_state :: "problem \<Rightarrow> state" where
  "initial_state pr = (\<lambda>f. case initial_values pr (FluentExp f) of
                              Some v \<Rightarrow> is_true v | None \<Rightarrow> False)"

definition apply_effect :: "state \<Rightarrow> effect \<Rightarrow> state \<Rightarrow> state" where
  "apply_effect s eff s' =
     (if holds s (condition eff)
      then (case fluent eff of FluentExp f \<Rightarrow> s'(f := holds s (effect_value eff)) | _ \<Rightarrow> s')
      else s')"

definition apply_action :: "state \<Rightarrow> action \<Rightarrow> state option" where
  "apply_action s a =
     (if list_all (holds s) (preconditions a) then Some (fold (apply_effect s) (effects a) s)
      else None)"

fun states_of :: "action list \<Rightarrow> state \<Rightarrow> string list \<Rightarrow> state list option" where
  "states_of A s [] = Some [s]"
| "states_of A s (n # plan) =
     (case find (\<lambda>a. name a = n) A of
        None \<Rightarrow> None
      | Some a \<Rightarrow>
          (case apply_action s a of
             None \<Rightarrow> None
           | Some s' \<Rightarrow> (case states_of A s' plan of
                          None \<Rightarrow> None
                        | Some ss \<Rightarrow> Some (s # ss))))"

text \<open>
  \<open>sometime-before\<close> over the truth values of the two formulas along the states: whenever the
  first holds, the second held in a strictly earlier state.
\<close>

fun sometime_before_holds :: "bool \<Rightarrow> (bool \<times> bool) list \<Rightarrow> bool" where
  "sometime_before_holds seen [] = True"
| "sometime_before_holds seen ((phi, psi) # rest) =
     ((if phi then seen else True) \<and> sometime_before_holds (seen \<or> psi) rest)"

text \<open>\<open>sometime-after\<close>: whenever the first holds, the second holds in that state or later.\<close>

fun sometime_after_holds :: "(bool \<times> bool) list \<Rightarrow> bool" where
  "sometime_after_holds [] = True"
| "sometime_after_holds ((phi, psi) # rest) =
     ((if phi then list_ex snd ((phi, psi) # rest) else True) \<and> sometime_after_holds rest)"

fun satisfies :: "state list \<Rightarrow> fnode \<Rightarrow> bool" where
  "satisfies ss (ALWAYS phi) = list_all (\<lambda>s. holds s phi) ss"
| "satisfies ss (SOMETIME phi) = list_ex (\<lambda>s. holds s phi) ss"
| "satisfies ss (AT_MOST_ONCE phi) =
     list_all (\<lambda>s. \<not> holds s phi)
       (dropWhile (\<lambda>s. holds s phi) (dropWhile (\<lambda>s. \<not> holds s phi) ss))"
| "satisfies ss (SOMETIME_BEFORE phi psi) =
     sometime_before_holds False (map (\<lambda>s. (holds s phi, holds s psi)) ss)"
| "satisfies ss (SOMETIME_AFTER phi psi) =
     sometime_after_holds (map (\<lambda>s. (holds s phi, holds s psi)) ss)"
| "satisfies ss (AND cs) = list_all (satisfies ss) cs"
| "satisfies ss (BoolConst b) = b"
| "satisfies ss _ = False"

text \<open>The plan runs on the problem and its last state satisfies the goals.\<close>

definition reaches_goal :: "problem \<Rightarrow> string list \<Rightarrow> bool" where
  "reaches_goal pr plan =
     (case states_of (actions pr) (initial_state pr) plan of
        None \<Rightarrow> False
      | Some ss \<Rightarrow> list_all (holds (last ss)) (goals pr))"

text \<open>The plan runs on the problem and the states it visits satisfy every constraint.\<close>

definition satisfies_constraints :: "problem \<Rightarrow> string list \<Rightarrow> bool" where
  "satisfies_constraints pr plan =
     (case states_of (actions pr) (initial_state pr) plan of
        None \<Rightarrow> False
      | Some ss \<Rightarrow> list_all (satisfies ss) (trajectory_constraints pr))"

subsection \<open>Simplified formulas and the initial value of a monitor\<close>

text \<open>
  The shape of a simplified formula that the allocation of the monitors relies on: the
  arguments of a conjunction or a disjunction are pairwise different and none of them is a
  conjunction (a disjunction) itself.
\<close>

fun nf :: "fnode \<Rightarrow> bool" where
  "nf (NOT x) = nf x"
| "nf (AND xs) = (distinct xs \<and> list_all (\<lambda>x. \<not> is_and x \<and> nf x) xs)"
| "nf (OR xs) = (distinct xs \<and> list_all (\<lambda>x. \<not> is_or x \<and> nf x) xs)"
| "nf (ALWAYS x) = nf x"
| "nf (SOMETIME x) = nf x"
| "nf (AT_MOST_ONCE x) = nf x"
| "nf (SOMETIME_BEFORE x y) = (nf x \<and> nf y)"
| "nf (SOMETIME_AFTER x y) = (nf x \<and> nf y)"
| "nf _ = True"

text \<open>
  Whether the monitor of a constraint starts true: the test \<open>init_state_value.is_true()\<close> of
  \<open>_get_monitoring_atoms\<close> on the second component of \<open>_evaluate_constraint\<close>.
\<close>

definition initially_true :: "(fnode \<rightharpoonup> fnode) \<Rightarrow> fnode \<Rightarrow> bool" where
  "initially_true I c =
     (case evaluate_constraint c I of
        Inl e \<Rightarrow> False
      | Inr (type, init_state_value) \<Rightarrow> py_is_true init_state_value = Inr True)"

section \<open>Example problems\<close>

definition unconditional :: "string \<Rightarrow> bool \<Rightarrow> effect" where
  "unconditional f b = \<lparr>condition = TRUE, fluent = FluentExp f, effect_value = BoolConst b\<rparr>"

text \<open>Scenario S2 of the specification: \<open>always(p)\<close>, \<open>p\<close> initially true, an action that clears it.\<close>

definition s2_problem :: problem where
  "s2_problem =
     \<lparr>problem_name = ''s2'', fluents = [Fluent ''p'' BoolType],
      actions = [\<lparr>name = ''op'', preconditions = [], effects = [unconditional ''p'' False]\<rparr>],
      initial_values = [FluentExp ''p'' \<mapsto> TRUE], goals = [],
      trajectory_constraints = [ALWAYS (FluentExp ''p'')]\<rparr>"




text \<open>\<open>always(p)\<close> with \<open>p\<close> initially false; the only action sets \<open>p\<close> and the goal is \<open>p\<close>.\<close>

definition set_p :: action where
  "set_p = \<lparr>name = ''set_p'', preconditions = [], effects = [unconditional ''p'' True]\<rparr>"

definition always_problem :: problem where
  "always_problem =
     \<lparr>problem_name = ''always_p'', fluents = [Fluent ''p'' BoolType],
      actions = [set_p],
      initial_values = [FluentExp ''p'' \<mapsto> FALSE], goals = [FluentExp ''p''],
      trajectory_constraints = [ALWAYS (FluentExp ''p'')]\<rparr>"

text \<open>
  \<open>sometime(p)\<close> with \<open>p\<close> initially true and written by no action; the only action sets \<open>g\<close>
  and the goal is \<open>g\<close>.
\<close>

definition set_g :: action where
  "set_g = \<lparr>name = ''set_g'', preconditions = [], effects = [unconditional ''g'' True]\<rparr>"

definition sometime_problem :: problem where
  "sometime_problem =
     \<lparr>problem_name = ''sometime_p'', fluents = [Fluent ''p'' BoolType, Fluent ''g'' BoolType],
      actions = [set_g],
      initial_values = [FluentExp ''p'' \<mapsto> TRUE, FluentExp ''g'' \<mapsto> FALSE],
      goals = [FluentExp ''g''],
      trajectory_constraints = [SOMETIME (FluentExp ''p'')]\<rparr>"

text \<open>
  \<open>sometime-after(not r, q)\<close> with \<open>r\<close> initially true and \<open>q\<close> initially false; the only action
  clears \<open>r\<close>.
\<close>

definition sa_problem :: problem where
  "sa_problem =
     \<lparr>problem_name = ''sa'', fluents = [Fluent ''r'' BoolType, Fluent ''q'' BoolType],
      actions = [\<lparr>name = ''clear_r'', preconditions = [], effects = [unconditional ''r'' False]\<rparr>],
      initial_values = [FluentExp ''r'' \<mapsto> TRUE, FluentExp ''q'' \<mapsto> FALSE], goals = [],
      trajectory_constraints = [SOMETIME_AFTER (NOT (FluentExp ''r'')) (FluentExp ''q'')]\<rparr>"

text \<open>A problem with no trajectory constraint.\<close>

definition plain_problem :: problem where
  "plain_problem =
     \<lparr>problem_name = ''plain'', fluents = [Fluent ''p'' BoolType],
      actions = [set_p],
      initial_values = [FluentExp ''p'' \<mapsto> FALSE], goals = [FluentExp ''p''],
      trajectory_constraints = []\<rparr>"

text \<open>\<open>sometime(p)\<close> with the goal \<open>p\<close>, and the same problem with the constant false as goal.\<close>

definition landmark_problem :: problem where
  "landmark_problem =
     \<lparr>problem_name = ''landmark'', fluents = [Fluent ''p'' BoolType],
      actions = [set_p],
      initial_values = [FluentExp ''p'' \<mapsto> FALSE], goals = [FluentExp ''p''],
      trajectory_constraints = [SOMETIME (FluentExp ''p'')]\<rparr>"

definition false_goal_problem :: problem where
  "false_goal_problem = landmark_problem\<lparr>goals := [FALSE]\<rparr>"


section \<open>Action pruning\<close>

lemma compile_actions_filter:
  "compile_actions d rd A A_prime = Inr A' \<Longrightarrow>
   \<exists>rewritten. list_all2 (\<lambda>a a'. compile_action d rd a = Inr a') A rewritten \<and>
     A' = A_prime @ filter (\<lambda>a'. FALSE \<notin> set (preconditions a')) rewritten"
proof (induction A arbitrary: A_prime)
  case Nil
  then show ?case by simp
next
  case (Cons a A)
  from Cons.prems obtain a' where a': "compile_action d rd a = Inr a'"
    and rest: "compile_actions d rd A
        (if FALSE \<notin> set (preconditions a') then A_prime @ [a'] else A_prime) = Inr A'"
    by (auto split: sum.splits)
  from Cons.IH [OF rest] obtain rewritten where
    r: "list_all2 (\<lambda>a a'. compile_action d rd a = Inr a') A rewritten"
    and A': "A' = (if FALSE \<notin> set (preconditions a') then A_prime @ [a'] else A_prime)
        @ filter (\<lambda>a'. FALSE \<notin> set (preconditions a')) rewritten"
    by blast
  have "list_all2 (\<lambda>a a'. compile_action d rd a = Inr a') (a # A) (a' # rewritten)"
    using a' r by simp
  moreover have "A' = A_prime @ filter (\<lambda>a'. FALSE \<notin> set (preconditions a')) (a' # rewritten)"
    using A' by simp
  ultimately show ?case by blast
qed

lemma compile_actions_of_compile:
  "compile d0 n gp = Inr (out, d) \<Longrightarrow>
   compile_actions d (build_relevancy_dict (build_constraint_list (trajectory_constraints gp)))
     (actions gp) [] = Inr (actions out)"
  by (auto simp: compile_def Let_def split: sum.splits prod.splits)

text \<open>
  Claim C7 (action pruning). When \<open>compile\<close> succeeds, the actions of the output problem are
  the rewritten actions, in order, without those whose precondition list contains the
  constant false: such an action is left out, which is no error, and no action of the output
  problem has the constant false among its preconditions.
\<close>

theorem action_pruning:
  assumes "compile d0 n gp = Inr (out, d)"
  shows "\<exists>rewritten.
           list_all2 (\<lambda>a a'. compile_action d
               (build_relevancy_dict (build_constraint_list (trajectory_constraints gp))) a = Inr a')
             (actions gp) rewritten \<and>
           actions out = filter (\<lambda>a'. FALSE \<notin> set (preconditions a')) rewritten \<and>
           (\<forall>a' \<in> set rewritten. FALSE \<in> set (preconditions a') \<longrightarrow> a' \<notin> set (actions out)) \<and>
           (\<forall>a' \<in> set (actions out). FALSE \<notin> set (preconditions a'))"
proof -
  from compile_actions_filter [OF compile_actions_of_compile [OF assms]]
  obtain rewritten where
    "list_all2 (\<lambda>a a'. compile_action d
               (build_relevancy_dict (build_constraint_list (trajectory_constraints gp))) a = Inr a')
             (actions gp) rewritten"
    and "actions out = filter (\<lambda>a'. FALSE \<notin> set (preconditions a')) rewritten"
    by auto
  then show ?thesis by auto
qed

lemma s2_compiles:
  "(case compile Map.empty ''s2'' s2_problem of
      Inl e \<Rightarrow> False
    | Inr (out, d) \<Rightarrow> actions out = [])"
  by code_simp

theorem action_pruning_witness:
  "\<exists>out d rewritten.
     compile Map.empty ''s2'' s2_problem = Inr (out, d) \<and>
     list_all2 (\<lambda>a a'. compile_action d
         (build_relevancy_dict (build_constraint_list (trajectory_constraints s2_problem))) a = Inr a')
       (actions s2_problem) rewritten \<and>
     length rewritten = 1 \<and> actions out = [] \<and>
     actions out = filter (\<lambda>a'. FALSE \<notin> set (preconditions a')) rewritten"
proof -
  from s2_compiles obtain out d where
    c: "compile Map.empty ''s2'' s2_problem = Inr (out, d)" and e: "actions out = []"
    by (auto split: sum.splits)
  from action_pruning [OF c] obtain rewritten where
    r: "list_all2 (\<lambda>a a'. compile_action d
         (build_relevancy_dict (build_constraint_list (trajectory_constraints s2_problem))) a = Inr a')
       (actions s2_problem) rewritten"
    and f: "actions out = filter (\<lambda>a'. FALSE \<notin> set (preconditions a')) rewritten"
    by blast
  have "length rewritten = 1"
    using list_all2_lengthD [OF r] by (simp add: s2_problem_def)
  with c e r f show ?thesis by blast
qed

section \<open>Initial-state evaluation: where the compiler departs from the specification\<close>

lemma build_constraint_list_empty: "build_constraint_list [] = [TRUE]"
  by (simp add: build_constraint_list_def em_And_def remove_quantifier_def remove_quantifiers_def)

lemma no_constraints_raise: "trajectory_constraints gp = [] \<Longrightarrow> compile d0 n gp = Inl IndexError"
  by (simp add: compile_def build_constraint_list_empty get_monitoring_atoms_def
      monitoring_step_def arg_at_def)

text \<open>
  Claim C4 (empty constraints). The claim says that a problem without trajectory constraints
  compiles to the same problem under a new name. On the code the conjunction of no
  constraints is the constant true, the constraint list is \<open>[TRUE]\<close>, and the loop of
  \<open>_get_monitoring_atoms\<close> hands that constant to \<open>_evaluate_constraint\<close>, whose last branch
  reads \<open>constr.args[0]\<close> of a node without arguments: the call ends with \<open>IndexError\<close> and
  returns no problem.
\<close>

theorem empty_constraints_index_error:
  "trajectory_constraints plain_problem = [] \<and>
   build_constraint_list (trajectory_constraints plain_problem) = [TRUE] \<and>
   compile Map.empty ''plain'' plain_problem = Inl IndexError"
  by (simp add: no_constraints_raise build_constraint_list_empty plain_problem_def)

text \<open>
  Claim C3 (always violated in the initial state). The claim says that \<open>always(p)\<close> with \<open>p\<close>
  false in the initial state makes the compiler fail. On the code an initially false fluent is
  not a key of the substitution, \<open>p\<close> stays as it is, the test \<open>is_false\<close> does not fire, and
  the compiler returns a problem: here the one whose only action, \<open>set_p\<close>, is unchanged and
  whose goal is \<open>p\<close>.
\<close>

theorem always_violation_undetected:
  "\<not> holds (initial_state always_problem) (FluentExp ''p'') \<and>
   trajectory_constraints always_problem = [ALWAYS (FluentExp ''p'')] \<and>
   (case compile Map.empty ''always_p'' always_problem of
      Inl e \<Rightarrow> False
    | Inr (out, d) \<Rightarrow> actions out = [set_p] \<and> goals out = [FluentExp ''p''])"
  by code_simp

text \<open>
  Claim C2 (initial value of a \<open>sometime-after\<close> monitor). The claim says that the monitor is
  initially true exactly when the second argument holds in the initial state or the first
  does not. On the code, Python's \<open>or\<close> between two nodes returns the first node, so the
  initial value is that of the second argument alone. For \<open>sometime-after(not r, q)\<close> with
  \<open>r\<close> initially true and written by an action, and \<open>q\<close> initially false, the first argument
  evaluates to the constant false, so the claim asks for an initially true monitor; the code
  leaves \<open>hold-0\<close> out of the initially true atoms.
\<close>

theorem sometime_after_initial_value:
  "(let I = ground_initial_state (actions sa_problem) (initial_values sa_problem)
    in trajectory_constraints sa_problem = [SOMETIME_AFTER (NOT (FluentExp ''r'')) (FluentExp ''q'')] \<and>
       simplify (substitute (NOT (FluentExp ''r'')) I) = FALSE \<and>
       simplify (substitute (FluentExp ''q'') I) = FluentExp ''q'' \<and>
       (case get_monitoring_atoms Map.empty (build_constraint_list (trajectory_constraints sa_problem)) I of
          Inl e \<Rightarrow> False
        | Inr (I_prime, F_prime, d) \<Rightarrow>
            d (SOMETIME_AFTER (NOT (FluentExp ''r'')) (FluentExp ''q'')) = Some (FluentExp ''hold-0'') \<and>
            I_prime = []) \<and>
       (case compile Map.empty ''sa'' sa_problem of
          Inl e \<Rightarrow> False
        | Inr (out, d) \<Rightarrow> initial_values out (FluentExp ''hold-0'') = None))"
  by code_simp

text \<open>
  Claim C1 (plan preservation). The claim says that the plans reaching the goal of the output
  problem are exactly the plans of the grounded problem that satisfy its trajectory
  constraints. Both directions fail on the code. For \<open>always(p)\<close> with \<open>p\<close> initially false the
  plan \<open>set_p\<close> reaches the goal of the output problem, and it violates the constraint in the
  first state. For \<open>sometime(p)\<close> with \<open>p\<close> initially true and written by no action the plan
  \<open>set_g\<close> reaches the goal of the grounded problem and satisfies the constraint, and it does
  not reach the goal of the output problem, where the monitor \<open>hold-0\<close> starts false and is
  never set.
\<close>

theorem round_trip_fails:
  "(case compile Map.empty ''always_p'' always_problem of
      Inl e \<Rightarrow> False
    | Inr (out, d) \<Rightarrow>
        reaches_goal out [''set_p''] \<and> reaches_goal always_problem [''set_p''] \<and>
        \<not> satisfies_constraints always_problem [''set_p'']) \<and>
   (case compile Map.empty ''sometime_p'' sometime_problem of
      Inl e \<Rightarrow> False
    | Inr (out, d) \<Rightarrow>
        reaches_goal sometime_problem [''set_g''] \<and>
        satisfies_constraints sometime_problem [''set_g''] \<and>
        goals out = [AND [FluentExp ''g'', FluentExp ''hold-0'']] \<and>
        \<not> reaches_goal out [''set_g''])"
  by code_simp

section \<open>The grounded initial state\<close>

lemma written_by_concat: "written_by A = set (concat (map (\<lambda>act. map fluent (effects act)) A))"
  by (auto simp: written_by_def written_def)

lemma ground_fold:
  "fold (\<lambda>key_gr gis.
           (case iv key_gr of
              None \<Rightarrow> gis
            | Some initial_value \<Rightarrow> if is_true initial_value then gis(key_gr \<mapsto> initial_value) else gis))
        ks m k
   = (if k \<in> set ks \<and> (\<exists>v. iv k = Some v \<and> is_true v) then iv k else m k)"
  by (induction ks arbitrary: m) (auto split: option.splits)

lemma ground_initial_state_apply:
  "ground_initial_state A iv k =
     (if k \<in> written_by A \<and> (\<exists>v. iv k = Some v \<and> is_true v) then iv k else None)"
  by (simp add: ground_initial_state_def ground_fold written_by_concat)

lemma is_true_iff: "is_true v \<longleftrightarrow> v = TRUE"
  by (cases v) auto

lemma compile_uses_ground_initial_state:
  "compile d0 n gp = Inr (out, d) \<Longrightarrow>
   \<exists>I_prime F_prime.
     get_monitoring_atoms d0 (build_constraint_list (trajectory_constraints gp))
       (ground_initial_state (actions gp) (initial_values gp)) = Inr (I_prime, F_prime, d)"
  by (auto simp: compile_def Let_def split: sum.splits prod.splits)

lemma substitute_untouched:
  assumes keys: "\<forall>k \<in> dom m. is_fluent_exp k"
  shows "set (fluent_exps e) \<inter> dom m = {} \<Longrightarrow> substitute e m = e"
proof (induction e)
  case (BoolConst b)
  have "m (BoolConst b) = None" using keys by (cases "m (BoolConst b)") force+
  then show ?case by simp
next
  case (IntConst i)
  have "m (IntConst i) = None" using keys by (cases "m (IntConst i)") force+
  then show ?case by simp
next
  case (FluentExp f)
  then show ?case by (auto simp: dom_def)
next
  case (NOT e)
  have "m (NOT e) = None" using keys by (cases "m (NOT e)") force+
  with NOT show ?case by simp
next
  case (AND xs)
  have "m (AND xs) = None" using keys by (cases "m (AND xs)") force+
  moreover have "map (\<lambda>x. substitute x m) xs = xs"
    using AND by (intro map_idI) auto
  ultimately show ?case by simp
next
  case (OR xs)
  have "m (OR xs) = None" using keys by (cases "m (OR xs)") force+
  moreover have "map (\<lambda>x. substitute x m) xs = xs"
    using OR by (intro map_idI) auto
  ultimately show ?case by simp
next
  case (ALWAYS e)
  have "m (ALWAYS e) = None" using keys by (cases "m (ALWAYS e)") force+
  with ALWAYS show ?case by simp
next
  case (SOMETIME e)
  have "m (SOMETIME e) = None" using keys by (cases "m (SOMETIME e)") force+
  with SOMETIME show ?case by simp
next
  case (AT_MOST_ONCE e)
  have "m (AT_MOST_ONCE e) = None" using keys by (cases "m (AT_MOST_ONCE e)") force+
  with AT_MOST_ONCE show ?case by simp
next
  case (SOMETIME_BEFORE e1 e2)
  have "m (SOMETIME_BEFORE e1 e2) = None" using keys by (cases "m (SOMETIME_BEFORE e1 e2)") force+
  with SOMETIME_BEFORE show ?case by (simp add: Int_Un_distrib2)
next
  case (SOMETIME_AFTER e1 e2)
  have "m (SOMETIME_AFTER e1 e2) = None" using keys by (cases "m (SOMETIME_AFTER e1 e2)") force+
  with SOMETIME_AFTER show ?case by (simp add: Int_Un_distrib2)
qed

lemma ground_keys_fluent:
  "list_all wf_action A \<Longrightarrow> \<forall>k \<in> dom (ground_initial_state A iv). is_fluent_exp k"
  by (auto simp: ground_initial_state_apply dom_def written_by_def written_def wf_action_def
      list_all_iff split: if_splits)

section \<open>The at-most-once rule\<close>

















section \<open>Monitor allocation\<close>

lemma digit_cases: "d < 10 \<Longrightarrow> d \<in> {0, 1, 2, 3, 4, 5, 6, 7, 8, 9::nat}"
  by auto

lemma digit_val_char: "d < 10 \<Longrightarrow> digit_val (digit_char d) = d"
  using digit_cases [of d] by (auto simp: digit_val_def digit_char_def)

lemma digit_char_not_sep: "d < 10 \<Longrightarrow> CHR ''-'' \<noteq> digit_char d"
  using digit_cases [of d] by (auto simp: digit_char_def)

lemma nat_of_string_snoc: "nat_of_string (s @ [c]) = 10 * nat_of_string s + digit_val c"
  by (simp add: nat_of_string_def)

lemma nat_of_string_of_nat: "nat_of_string (string_of_nat n) = n"
proof (induction n rule: string_of_nat.induct)
  case (1 n)
  show ?case
  proof (cases "n < 10")
    case True
    then show ?thesis
      by (subst string_of_nat.simps) (simp add: nat_of_string_def digit_val_char)
  next
    case False
    with 1 have "nat_of_string (string_of_nat (n div 10)) = n div 10" by simp
    with False show ?thesis
      by (subst string_of_nat.simps) (simp add: nat_of_string_snoc digit_val_char)
  qed
qed

lemma string_of_nat_inj: "string_of_nat n = string_of_nat m \<Longrightarrow> n = m"
  by (metis nat_of_string_of_nat)

lemma sep_notin_string_of_nat: "CHR ''-'' \<notin> set (string_of_nat n)"
proof (induction n rule: string_of_nat.induct)
  case (1 n)
  show ?case
  proof (cases "n < 10")
    case True
    then show ?thesis
      by (subst string_of_nat.simps) (simp add: digit_char_not_sep)
  next
    case False
    with 1 have "CHR ''-'' \<notin> set (string_of_nat (n div 10))" by simp
    with False show ?thesis
      by (subst string_of_nat.simps) (simp add: digit_char_not_sep)
  qed
qed

lemma suffix_after_sep:
  "x \<notin> set s1 \<Longrightarrow> x \<notin> set s2 \<Longrightarrow> t1 @ x # s1 = t2 @ x # s2 \<Longrightarrow> s1 = s2"
proof (induction t1 arbitrary: t2)
  case Nil
  then show ?case by (cases t2) auto
next
  case (Cons a t1)
  show ?case
  proof (cases t2)
    case Nil
    with Cons.prems show ?thesis by auto
  next
    case (Cons b t2')
    with Cons.prems Cons.IH [of t2'] show ?thesis by simp
  qed
qed

lemma tagged_name_inj:
  assumes "t1 @ ''-'' @ string_of_nat n1 = t2 @ ''-'' @ string_of_nat n2"
  shows "n1 = n2"
proof -
  from assms have "t1 @ CHR ''-'' # string_of_nat n1 = t2 @ CHR ''-'' # string_of_nat n2"
    by simp
  then have "string_of_nat n1 = string_of_nat n2"
    by (rule suffix_after_sep [OF sep_notin_string_of_nat sep_notin_string_of_nat])
  then show ?thesis by (rule string_of_nat_inj)
qed

lemma monitor_name_inj: "monitor_name c1 n1 = monitor_name c2 n2 \<Longrightarrow> n1 = n2"
  unfolding monitor_name_def by (rule tagged_name_inj)

lemma evaluate_constraint_tag:
  "evaluate_constraint c I = Inr (type, v) \<Longrightarrow> py_str type = monitor_tag c"
  by (cases c; auto simp add: py_str_def HOLD_def SEEN_PSI_def SEEN_PHI_def arg_at_def split: if_splits)

lemma monitoring_step_always:
  "is_always c \<Longrightarrow> monitoring_step I c st = Inr st' \<Longrightarrow> st' = st"
  by (cases c; simp add: monitoring_step_def split: prod.splits if_splits)

lemma evaluate_constraint_name:
  "evaluate_constraint c I = Inr (type, v)
   \<Longrightarrow> py_str type @ SEPARATOR @ string_of_nat k = monitor_name c k"
  by (simp add: evaluate_constraint_tag monitor_name_def SEPARATOR_def)

lemma monitoring_step_other:
  assumes "\<not> is_always c" and "monitoring_step I c (ma, k, isp, d) = Inr st'"
  shows "\<exists>isp'. st' = (ma @ [Fluent (monitor_name c k) BoolType], Suc k, isp',
                        d(c \<mapsto> FluentExp (monitor_name c k)))"
proof -
  from assms have step: "(case evaluate_constraint c I of
               Inl e \<Rightarrow> Inl e
             | Inr (type, init_state_value) \<Rightarrow>
                 (let fluent_name = py_str type @ SEPARATOR @ string_of_nat k;
                      monitoring_atom = FluentExp fluent_name
                  in (case py_is_true init_state_value of
                        Inl e \<Rightarrow> Inl e
                      | Inr hb \<Rightarrow>
                          if (case c of
                                SOMETIME_BEFORE x y \<Rightarrow> is_true (simplify (substitute x I))
                              | _ \<Rightarrow> False)
                          then Inl (UPProblemDefinitionError
                                 ''PROBLEM NOT SOLVABLE: a sometime-before is violated in the initial state'')
                          else Inr (ma @ [Fluent fluent_name BoolType],
                                    Suc k,
                                    (if hb then isp @ [monitoring_atom]
                                     else isp),
                                    d(c \<mapsto> monitoring_atom))))) = Inr st'"
    by (cases c; simp only: monitoring_step_def prod.case fnode.case is_always.simps not_True_eq_False)
  then obtain type v where ev: "evaluate_constraint c I = Inr (type, v)"
    by (cases "evaluate_constraint c I") auto
  from step ev obtain b where "py_is_true v = Inr b"
    by (cases "py_is_true v") (auto simp: Let_def)
  with step ev show ?thesis
    by (auto simp: Let_def evaluate_constraint_name [OF ev] split: if_splits)
qed

lemma monitoring_loop:
  "fold_err (monitoring_step I) C (ma, k, isp, d0) = Inr (ma', k', isp', d') \<Longrightarrow>
     ma' = ma @ map (\<lambda>(n, c). Fluent (monitor_name c n) BoolType)
                    (enumerate k (filter (\<lambda>c. \<not> is_always c) C)) \<and>
     k' = k + length (filter (\<lambda>c. \<not> is_always c) C) \<and>
     (\<forall>c. c \<notin> set C \<or> is_always c \<longrightarrow> d' c = d0 c) \<and>
     (\<forall>c \<in> set C. \<not> is_always c \<longrightarrow>
        (\<exists>n. k \<le> n \<and> n < k' \<and> d' c = Some (FluentExp (monitor_name c n)))) \<and>
     inj_on d' {c \<in> set C. \<not> is_always c}"
proof (induction C arbitrary: ma k isp d0)
  case Nil
  then show ?case by simp
next
  case (Cons c C)
  from Cons.prems obtain st1 where
    step: "monitoring_step I c (ma, k, isp, d0) = Inr st1"
    and rest: "fold_err (monitoring_step I) C st1 = Inr (ma', k', isp', d')"
    by (auto split: sum.splits)
  show ?case
  proof (cases "is_always c")
    case True
    from monitoring_step_always [OF True step] have "st1 = (ma, k, isp, d0)" .
    with rest Cons.IH [of ma k isp d0] True show ?thesis
      by (auto simp: inj_on_def)
  next
    case False
    from monitoring_step_other [OF False step] obtain isp1 where
      st1: "st1 = (ma @ [Fluent (monitor_name c k) BoolType], Suc k, isp1,
                   d0(c \<mapsto> FluentExp (monitor_name c k)))"
      by blast
    let ?d1 = "d0(c \<mapsto> FluentExp (monitor_name c k))"
    from Cons.IH [OF rest [unfolded st1]] have
      ma': "ma' = (ma @ [Fluent (monitor_name c k) BoolType]) @
                  map (\<lambda>(n, c). Fluent (monitor_name c n) BoolType)
                      (enumerate (Suc k) (filter (\<lambda>c. \<not> is_always c) C))"
      and k': "k' = Suc k + length (filter (\<lambda>c. \<not> is_always c) C)"
      and frame: "\<forall>x. x \<notin> set C \<or> is_always x \<longrightarrow> d' x = ?d1 x"
      and names: "\<forall>x \<in> set C. \<not> is_always x \<longrightarrow>
                    (\<exists>n. Suc k \<le> n \<and> n < k' \<and> d' x = Some (FluentExp (monitor_name x n)))"
      and inj: "inj_on d' {x \<in> set C. \<not> is_always x}"
      by blast+
    have head: "c \<notin> set C \<Longrightarrow> d' c = Some (FluentExp (monitor_name c k))"
      using frame by simp
    have 1: "ma' = ma @ map (\<lambda>(n, c). Fluent (monitor_name c n) BoolType)
                    (enumerate k (filter (\<lambda>c. \<not> is_always c) (c # C)))"
      using ma' False by simp
    have 2: "k' = k + length (filter (\<lambda>c. \<not> is_always c) (c # C))"
      using k' False by simp
    have 3: "\<forall>x. x \<notin> set (c # C) \<or> is_always x \<longrightarrow> d' x = d0 x"
      using frame False by auto
    have 4: "\<forall>x \<in> set (c # C). \<not> is_always x \<longrightarrow>
               (\<exists>n. k \<le> n \<and> n < k' \<and> d' x = Some (FluentExp (monitor_name x n)))"
    proof (intro ballI impI)
      fix x assume x: "x \<in> set (c # C)" and nx: "\<not> is_always x"
      show "\<exists>n. k \<le> n \<and> n < k' \<and> d' x = Some (FluentExp (monitor_name x n))"
      proof (cases "x \<in> set C")
        case True
        with names nx obtain n where "Suc k \<le> n" "n < k'" "d' x = Some (FluentExp (monitor_name x n))"
          by blast
        then show ?thesis by (intro exI [of _ n]) simp
      next
        case False
        with x have "x = c" by simp
        with False head k' show ?thesis by (intro exI [of _ k]) simp
      qed
    qed
    have 5: "inj_on d' {x \<in> set (c # C). \<not> is_always x}"
    proof (rule inj_onI)
      fix x y
      assume x: "x \<in> {x \<in> set (c # C). \<not> is_always x}"
        and y: "y \<in> {x \<in> set (c # C). \<not> is_always x}"
        and eq: "d' x = d' y"
      have clash: "u = v" if u: "u \<notin> set C" "u = c" and v: "v \<in> set C" "\<not> is_always v"
        and e: "d' u = d' v" for u v
      proof -
        from v names obtain n where n: "Suc k \<le> n" "d' v = Some (FluentExp (monitor_name v n))"
          by blast
        from u head have "d' u = Some (FluentExp (monitor_name c k))" by simp
        with e n have "monitor_name c k = monitor_name v n" by simp
        from monitor_name_inj [OF this] n show ?thesis by simp
      qed
      show "x = y"
      proof (cases "x \<in> set C")
        case xC: True
        show ?thesis
        proof (cases "y \<in> set C")
          case True
          with xC x y eq inj show ?thesis by (auto dest: inj_onD)
        next
          case False
          with y have "y = c" by simp
          from clash [OF False this xC _ eq [symmetric]] x show ?thesis by simp
        qed
      next
        case xC: False
        with x have xc: "x = c" by simp
        show ?thesis
        proof (cases "y \<in> set C")
          case True
          from clash [OF xC xc True _ eq] y show ?thesis by simp
        next
          case False
          with y have "y = c" by simp
          with xc show ?thesis by simp
        qed
      qed
    qed
    from 1 2 3 4 5 show ?thesis by blast
  qed
qed


lemma monitors_are_fluents:
  assumes "get_monitoring_atoms d0 C I = Inr (I_prime, F_prime, d)"
    and "c \<in> set C" and "\<not> is_always c"
  shows "\<exists>m. d c = Some (FluentExp m)"
proof -
  from assms(1) obtain k isp where
    "fold_err (monitoring_step I) C ([], 0, [], d0) = Inr (F_prime, k, isp, d)"
    by (auto simp: get_monitoring_atoms_def split: sum.splits)
  from monitoring_loop [OF this] assms(2,3) show ?thesis by blast
qed





lemma list_all_nf_weaken: "list_all (\<lambda>x. P x \<and> nf x) xs \<Longrightarrow> list_all nf xs"
  by (simp add: list_all_iff)






text \<open>The allocation loop, entry by entry.\<close>

lemma monitoring_step_always_exact:
  "monitoring_step I (ALWAYS x) st = Inr st' \<Longrightarrow>
   st' = st \<and> \<not> is_false (simplify (substitute x I))"
  by (auto simp: monitoring_step_def split: prod.splits if_splits)

lemma monitoring_step_exact:
  assumes "\<not> is_always c" and "monitoring_step I c (ma, k, isp, d) = Inr st'"
  shows "st' = (ma @ [Fluent (monitor_name c k) BoolType], Suc k,
                (if initially_true I c then isp @ [FluentExp (monitor_name c k)] else isp),
                d(c \<mapsto> FluentExp (monitor_name c k))) \<and>
         (\<forall>x y. c = SOMETIME_BEFORE x y \<longrightarrow> \<not> is_true (simplify (substitute x I)))"
proof -
  from assms have step: "(case evaluate_constraint c I of
               Inl e \<Rightarrow> Inl e
             | Inr (type, init_state_value) \<Rightarrow>
                 (let fluent_name = py_str type @ SEPARATOR @ string_of_nat k;
                      monitoring_atom = FluentExp fluent_name
                  in (case py_is_true init_state_value of
                        Inl e \<Rightarrow> Inl e
                      | Inr hb \<Rightarrow>
                          if (case c of
                                SOMETIME_BEFORE x y \<Rightarrow> is_true (simplify (substitute x I))
                              | _ \<Rightarrow> False)
                          then Inl (UPProblemDefinitionError
                                 ''PROBLEM NOT SOLVABLE: a sometime-before is violated in the initial state'')
                          else Inr (ma @ [Fluent fluent_name BoolType],
                                    Suc k,
                                    (if hb then isp @ [monitoring_atom]
                                     else isp),
                                    d(c \<mapsto> monitoring_atom))))) = Inr st'"
    by (cases c; simp only: monitoring_step_def prod.case fnode.case is_always.simps not_True_eq_False)
  then obtain type v where ev: "evaluate_constraint c I = Inr (type, v)"
    by (cases "evaluate_constraint c I") auto
  from step ev obtain b where b: "py_is_true v = Inr b"
    by (cases "py_is_true v") (auto simp: Let_def)
  have it: "initially_true I c = b"
    using ev b by (simp add: initially_true_def)
  from step ev b have
    nsb: "\<not> (case c of SOMETIME_BEFORE x y \<Rightarrow> is_true (simplify (substitute x I)) | _ \<Rightarrow> False)"
    by (auto simp: Let_def split: if_splits)
  then have sb: "\<forall>x y. c = SOMETIME_BEFORE x y \<longrightarrow> \<not> is_true (simplify (substitute x I))"
    by auto
  from step ev b nsb have "st' = (ma @ [Fluent (monitor_name c k) BoolType], Suc k,
                (if b then isp @ [FluentExp (monitor_name c k)] else isp),
                d(c \<mapsto> FluentExp (monitor_name c k)))"
    using evaluate_constraint_name [OF ev, of k] by (auto simp: Let_def)
  with it sb show ?thesis by simp
qed

lemma monitoring_loop_exact:
  "fold_err (monitoring_step I) C (ma, k, isp, d0) = Inr (ma', k', isp', d') \<Longrightarrow>
     isp' = isp @ map (\<lambda>(n, c). FluentExp (monitor_name c n))
                    (filter (\<lambda>(n, c). initially_true I c)
                       (enumerate k (filter (\<lambda>c. \<not> is_always c) C))) \<and>
     (\<forall>x. ALWAYS x \<in> set C \<longrightarrow> \<not> is_false (simplify (substitute x I))) \<and>
     (\<forall>x y. SOMETIME_BEFORE x y \<in> set C \<longrightarrow> \<not> is_true (simplify (substitute x I))) \<and>
     (\<forall>c. c \<notin> set C \<or> is_always c \<longrightarrow> d' c = d0 c) \<and>
     (distinct C \<longrightarrow>
        (\<forall>i < length (filter (\<lambda>c. \<not> is_always c) C).
           d' (filter (\<lambda>c. \<not> is_always c) C ! i)
             = Some (FluentExp (monitor_name (filter (\<lambda>c. \<not> is_always c) C ! i) (k + i)))))"
proof (induction C arbitrary: ma k isp d0)
  case Nil
  then show ?case by simp
next
  case (Cons c C)
  let ?NA = "filter (\<lambda>c. \<not> is_always c) C"
  from Cons.prems obtain st1 where
    step: "monitoring_step I c (ma, k, isp, d0) = Inr st1"
    and rest: "fold_err (monitoring_step I) C st1 = Inr (ma', k', isp', d')"
    by (auto split: sum.splits)
  show ?case
  proof (cases "is_always c")
    case True
    then obtain x where c: "c = ALWAYS x" by (cases c) auto
    from monitoring_step_always_exact [OF step [unfolded c]]
    have st1: "st1 = (ma, k, isp, d0)" and ok: "\<not> is_false (simplify (substitute x I))"
      by simp_all
    from Cons.IH [OF rest [unfolded st1]] c ok show ?thesis by auto
  next
    case False
    from monitoring_step_exact [OF False step] have
      st1: "st1 = (ma @ [Fluent (monitor_name c k) BoolType], Suc k,
                   (if initially_true I c then isp @ [FluentExp (monitor_name c k)] else isp),
                   d0(c \<mapsto> FluentExp (monitor_name c k)))"
      and sbc: "\<forall>x y. c = SOMETIME_BEFORE x y \<longrightarrow> \<not> is_true (simplify (substitute x I))"
      by simp_all
    let ?d1 = "d0(c \<mapsto> FluentExp (monitor_name c k))"
    let ?isp1 = "if initially_true I c then isp @ [FluentExp (monitor_name c k)] else isp"
    from Cons.IH [OF rest [unfolded st1]] have
      isp': "isp' = ?isp1 @ map (\<lambda>(n, c). FluentExp (monitor_name c n))
                    (filter (\<lambda>(n, c). initially_true I c) (enumerate (Suc k) ?NA))"
      and al: "\<forall>x. ALWAYS x \<in> set C \<longrightarrow> \<not> is_false (simplify (substitute x I))"
      and sb: "\<forall>x y. SOMETIME_BEFORE x y \<in> set C \<longrightarrow> \<not> is_true (simplify (substitute x I))"
      and frame: "\<forall>x. x \<notin> set C \<or> is_always x \<longrightarrow> d' x = ?d1 x"
      and exact: "distinct C \<longrightarrow>
        (\<forall>i < length ?NA. d' (?NA ! i) = Some (FluentExp (monitor_name (?NA ! i) (Suc k + i))))"
      by blast+
    have 1: "isp' = isp @ map (\<lambda>(n, c). FluentExp (monitor_name c n))
                    (filter (\<lambda>(n, c). initially_true I c)
                       (enumerate k (filter (\<lambda>c. \<not> is_always c) (c # C))))"
      using isp' False by simp
    have 2: "\<forall>x. ALWAYS x \<in> set (c # C) \<longrightarrow> \<not> is_false (simplify (substitute x I))"
      using al False by auto
    have 3: "\<forall>x y. SOMETIME_BEFORE x y \<in> set (c # C) \<longrightarrow> \<not> is_true (simplify (substitute x I))"
      using sb sbc by auto
    have 4: "\<forall>x. x \<notin> set (c # C) \<or> is_always x \<longrightarrow> d' x = d0 x"
      using frame False by auto
    have 5: "\<forall>i < length (filter (\<lambda>c. \<not> is_always c) (c # C)).
           d' (filter (\<lambda>c. \<not> is_always c) (c # C) ! i)
             = Some (FluentExp (monitor_name (filter (\<lambda>c. \<not> is_always c) (c # C) ! i) (k + i)))"
      if dist: "distinct (c # C)"
    proof (intro allI impI)
      fix i assume i: "i < length (filter (\<lambda>c. \<not> is_always c) (c # C))"
      have na: "filter (\<lambda>c. \<not> is_always c) (c # C) = c # ?NA" using False by simp
      show "d' (filter (\<lambda>c. \<not> is_always c) (c # C) ! i)
             = Some (FluentExp (monitor_name (filter (\<lambda>c. \<not> is_always c) (c # C) ! i) (k + i)))"
      proof (cases i)
        case 0
        from dist have "c \<notin> set C" by simp
        with frame have "d' c = ?d1 c" by blast
        with 0 na show ?thesis by simp
      next
        case (Suc j)
        with i na have j: "j < length ?NA" by simp
        from dist exact j have "d' (?NA ! j) = Some (FluentExp (monitor_name (?NA ! j) (Suc k + j)))"
          by simp
        with Suc na show ?thesis by simp
      qed
    qed
    from 1 2 3 4 5 show ?thesis by blast
  qed
qed









section \<open>The grounded initial state in the initial-state evaluations\<close>

lemma monitoring_step_always_eq:
  "monitoring_step I (ALWAYS x) st =
     (if is_false (simplify (substitute x I))
      then Inl (UPProblemDefinitionError
             ''PROBLEM NOT SOLVABLE: an always is violated in the initial state'')
      else Inr st)"
  by (cases st) (simp add: monitoring_step_def)

lemma monitoring_step_sometime_before_error:
  "is_true (simplify (substitute x I)) \<Longrightarrow>
   monitoring_step I (SOMETIME_BEFORE x y) st =
     Inl (UPProblemDefinitionError
       ''PROBLEM NOT SOLVABLE: a sometime-before is violated in the initial state'')"
  by (cases st) (simp add: monitoring_step_def Let_def)

lemma evaluate_constraint_eqs:
  "evaluate_constraint (SOMETIME x) I = Inr (Some HOLD, Node (simplify (substitute x I)))"
  "evaluate_constraint (AT_MOST_ONCE x) I = Inr (Some SEEN_PHI, Node (simplify (substitute x I)))"
  "evaluate_constraint (SOMETIME_BEFORE x y) I = Inr (Some SEEN_PSI, Node (simplify (substitute y I)))"
  "evaluate_constraint (SOMETIME_AFTER x y) I = Inr (Some HOLD, Node (simplify (substitute y I)))"
  by (simp_all add: py_or_def)

lemma initially_true_eqs:
  "initially_true I (SOMETIME x) = is_true (simplify (substitute x I))"
  "initially_true I (AT_MOST_ONCE x) = is_true (simplify (substitute x I))"
  "initially_true I (SOMETIME_BEFORE x y) = is_true (simplify (substitute y I))"
  "initially_true I (SOMETIME_AFTER x y) = is_true (simplify (substitute y I))"
  by (simp_all add: initially_true_def py_or_def)

lemma compile_initial_checks:
  assumes "compile d0 n gp = Inr (out, d)"
  shows "(\<forall>x. ALWAYS x \<in> set (build_constraint_list (trajectory_constraints gp)) \<longrightarrow>
            \<not> is_false (simplify (substitute x
                 (ground_initial_state (actions gp) (initial_values gp))))) \<and>
         (\<forall>x y. SOMETIME_BEFORE x y \<in> set (build_constraint_list (trajectory_constraints gp)) \<longrightarrow>
            \<not> is_true (simplify (substitute x
                 (ground_initial_state (actions gp) (initial_values gp))))) \<and>
         initial_values out =
           fold (\<lambda>init_val iv. iv(init_val \<mapsto> TRUE))
             (map (\<lambda>(n, c). FluentExp (monitor_name c n))
                (filter (\<lambda>(n, c). initially_true
                            (ground_initial_state (actions gp) (initial_values gp)) c)
                   (enumerate 0 (filter (\<lambda>c. \<not> is_always c)
                      (build_constraint_list (trajectory_constraints gp))))))
             (initial_values gp)"
proof -
  let ?I = "ground_initial_state (actions gp) (initial_values gp)"
  let ?C = "build_constraint_list (trajectory_constraints gp)"
  from assms obtain I_prime F_prime where
    g: "get_monitoring_atoms d0 ?C ?I = Inr (I_prime, F_prime, d)"
    and iv: "initial_values out = fold (\<lambda>init_val iv. iv(init_val \<mapsto> TRUE)) I_prime (initial_values gp)"
    by (auto simp: compile_def Let_def split: sum.splits prod.splits)
  from g obtain k where
    loop: "fold_err (monitoring_step ?I) ?C ([], 0, [], d0) = Inr (F_prime, k, I_prime, d)"
    by (auto simp: get_monitoring_atoms_def split: sum.splits)
  from monitoring_loop_exact [OF loop] have
    "I_prime = map (\<lambda>(n, c). FluentExp (monitor_name c n))
                (filter (\<lambda>(n, c). initially_true ?I c)
                   (enumerate 0 (filter (\<lambda>c. \<not> is_always c) ?C)))"
    and "\<forall>x. ALWAYS x \<in> set ?C \<longrightarrow> \<not> is_false (simplify (substitute x ?I))"
    and "\<forall>x y. SOMETIME_BEFORE x y \<in> set ?C \<longrightarrow> \<not> is_true (simplify (substitute x ?I))"
    by simp_all
  with iv show ?thesis by simp
qed

text \<open>
  Claim C10 (the substitution used for the initial-state checks). The dictionary \<open>I\<close> that
  \<open>_compile\<close> passes to \<open>_get_monitoring_atoms\<close> has as keys exactly the fluents that some
  effect of some action writes and whose initial value is the constant true, each mapped to
  true. Any other fluent atom is left as it is by the substitution and by simplification, and
  so is any formula over such atoms (for well-formed actions): it does not become a constant.
  Every initial-state evaluation goes through this dictionary: the check of an always raises
  exactly when \<open>simplify (substitute x I)\<close> is the constant false, the check of a
  sometime-before raises when \<open>simplify (substitute x I)\<close> is the constant true, the value that
  \<open>_evaluate_constraint\<close> returns for a monitor is \<open>simplify (substitute x I)\<close> of the
  argument its kind reads, and the monitor starts true exactly when that value is the constant
  true. When \<open>compile\<close> succeeds, no always of the normalised list evaluates to false and no
  sometime-before to true in this sense, and the initial values of the output problem are
  those of the grounded problem with, set to true, the monitors that start true.
\<close>

theorem ground_initial_state_content:
  "dom (ground_initial_state (actions gp) (initial_values gp))
     = {k \<in> written_by (actions gp). initial_values gp k = Some TRUE} \<and>
   (\<forall>k \<in> dom (ground_initial_state (actions gp) (initial_values gp)).
      ground_initial_state (actions gp) (initial_values gp) k = Some TRUE) \<and>
   (\<forall>f. FluentExp f \<notin> dom (ground_initial_state (actions gp) (initial_values gp)) \<longrightarrow>
      simplify (substitute (FluentExp f) (ground_initial_state (actions gp) (initial_values gp)))
        = FluentExp f) \<and>
   (\<forall>e. list_all wf_action (actions gp) \<and>
        set (fluent_exps e) \<inter> dom (ground_initial_state (actions gp) (initial_values gp)) = {} \<longrightarrow>
      substitute e (ground_initial_state (actions gp) (initial_values gp)) = e) \<and>
   (\<forall>d0 n out d. compile d0 n gp = Inr (out, d) \<longrightarrow>
      (\<exists>I_prime F_prime.
         get_monitoring_atoms d0 (build_constraint_list (trajectory_constraints gp))
           (ground_initial_state (actions gp) (initial_values gp)) = Inr (I_prime, F_prime, d))) \<and>
   (\<forall>x st. monitoring_step (ground_initial_state (actions gp) (initial_values gp)) (ALWAYS x) st =
      (if is_false (simplify (substitute x (ground_initial_state (actions gp) (initial_values gp))))
       then Inl (UPProblemDefinitionError
              ''PROBLEM NOT SOLVABLE: an always is violated in the initial state'')
       else Inr st)) \<and>
   (\<forall>x y st. is_true (simplify (substitute x (ground_initial_state (actions gp) (initial_values gp)))) \<longrightarrow>
      monitoring_step (ground_initial_state (actions gp) (initial_values gp)) (SOMETIME_BEFORE x y) st =
        Inl (UPProblemDefinitionError
          ''PROBLEM NOT SOLVABLE: a sometime-before is violated in the initial state'')) \<and>
   (\<forall>x y.
      evaluate_constraint (SOMETIME x) (ground_initial_state (actions gp) (initial_values gp))
        = Inr (Some HOLD, Node (simplify (substitute x
                 (ground_initial_state (actions gp) (initial_values gp))))) \<and>
      evaluate_constraint (AT_MOST_ONCE x) (ground_initial_state (actions gp) (initial_values gp))
        = Inr (Some SEEN_PHI, Node (simplify (substitute x
                 (ground_initial_state (actions gp) (initial_values gp))))) \<and>
      evaluate_constraint (SOMETIME_BEFORE x y) (ground_initial_state (actions gp) (initial_values gp))
        = Inr (Some SEEN_PSI, Node (simplify (substitute y
                 (ground_initial_state (actions gp) (initial_values gp))))) \<and>
      evaluate_constraint (SOMETIME_AFTER x y) (ground_initial_state (actions gp) (initial_values gp))
        = Inr (Some HOLD, Node (simplify (substitute y
                 (ground_initial_state (actions gp) (initial_values gp)))))) \<and>
   (\<forall>x y.
      initially_true (ground_initial_state (actions gp) (initial_values gp)) (SOMETIME x)
        = is_true (simplify (substitute x (ground_initial_state (actions gp) (initial_values gp)))) \<and>
      initially_true (ground_initial_state (actions gp) (initial_values gp)) (AT_MOST_ONCE x)
        = is_true (simplify (substitute x (ground_initial_state (actions gp) (initial_values gp)))) \<and>
      initially_true (ground_initial_state (actions gp) (initial_values gp)) (SOMETIME_BEFORE x y)
        = is_true (simplify (substitute y (ground_initial_state (actions gp) (initial_values gp)))) \<and>
      initially_true (ground_initial_state (actions gp) (initial_values gp)) (SOMETIME_AFTER x y)
        = is_true (simplify (substitute y (ground_initial_state (actions gp) (initial_values gp))))) \<and>
   (\<forall>d0 n out d. compile d0 n gp = Inr (out, d) \<longrightarrow>
      (\<forall>x. ALWAYS x \<in> set (build_constraint_list (trajectory_constraints gp)) \<longrightarrow>
            \<not> is_false (simplify (substitute x
                 (ground_initial_state (actions gp) (initial_values gp))))) \<and>
      (\<forall>x y. SOMETIME_BEFORE x y \<in> set (build_constraint_list (trajectory_constraints gp)) \<longrightarrow>
            \<not> is_true (simplify (substitute x
                 (ground_initial_state (actions gp) (initial_values gp))))) \<and>
      initial_values out =
        fold (\<lambda>init_val iv. iv(init_val \<mapsto> TRUE))
          (map (\<lambda>(n, c). FluentExp (monitor_name c n))
             (filter (\<lambda>(n, c). initially_true
                         (ground_initial_state (actions gp) (initial_values gp)) c)
                (enumerate 0 (filter (\<lambda>c. \<not> is_always c)
                   (build_constraint_list (trajectory_constraints gp))))))
          (initial_values gp))"
proof (intro conjI)
  let ?I = "ground_initial_state (actions gp) (initial_values gp)"
  show "dom ?I = {k \<in> written_by (actions gp). initial_values gp k = Some TRUE}"
    by (auto simp: ground_initial_state_apply is_true_iff dom_def split: if_splits)
  show "\<forall>k \<in> dom ?I. ?I k = Some TRUE"
    by (auto simp: ground_initial_state_apply is_true_iff split: if_splits)
  show "\<forall>f. FluentExp f \<notin> dom ?I \<longrightarrow> simplify (substitute (FluentExp f) ?I) = FluentExp f"
    by (auto simp: dom_def)
  show "\<forall>e. list_all wf_action (actions gp) \<and> set (fluent_exps e) \<inter> dom ?I = {} \<longrightarrow>
      substitute e ?I = e"
    using substitute_untouched [OF ground_keys_fluent] by blast
  show "\<forall>d0 n out d. compile d0 n gp = Inr (out, d) \<longrightarrow>
      (\<exists>I_prime F_prime.
         get_monitoring_atoms d0 (build_constraint_list (trajectory_constraints gp)) ?I
           = Inr (I_prime, F_prime, d))"
    using compile_uses_ground_initial_state by blast
  show "\<forall>x st. monitoring_step ?I (ALWAYS x) st =
      (if is_false (simplify (substitute x ?I))
       then Inl (UPProblemDefinitionError
              ''PROBLEM NOT SOLVABLE: an always is violated in the initial state'')
       else Inr st)"
    by (simp only: monitoring_step_always_eq simp_thms)
  show "\<forall>x y st. is_true (simplify (substitute x ?I)) \<longrightarrow>
      monitoring_step ?I (SOMETIME_BEFORE x y) st =
        Inl (UPProblemDefinitionError
          ''PROBLEM NOT SOLVABLE: a sometime-before is violated in the initial state'')"
    using monitoring_step_sometime_before_error by blast
  show "\<forall>x y.
      evaluate_constraint (SOMETIME x) ?I = Inr (Some HOLD, Node (simplify (substitute x ?I))) \<and>
      evaluate_constraint (AT_MOST_ONCE x) ?I = Inr (Some SEEN_PHI, Node (simplify (substitute x ?I))) \<and>
      evaluate_constraint (SOMETIME_BEFORE x y) ?I = Inr (Some SEEN_PSI, Node (simplify (substitute y ?I))) \<and>
      evaluate_constraint (SOMETIME_AFTER x y) ?I = Inr (Some HOLD, Node (simplify (substitute y ?I)))"
    by (simp only: evaluate_constraint_eqs simp_thms)
  show "\<forall>x y.
      initially_true ?I (SOMETIME x) = is_true (simplify (substitute x ?I)) \<and>
      initially_true ?I (AT_MOST_ONCE x) = is_true (simplify (substitute x ?I)) \<and>
      initially_true ?I (SOMETIME_BEFORE x y) = is_true (simplify (substitute y ?I)) \<and>
      initially_true ?I (SOMETIME_AFTER x y) = is_true (simplify (substitute y ?I))"
    by (simp only: initially_true_eqs simp_thms)
  show "\<forall>d0 n out d. compile d0 n gp = Inr (out, d) \<longrightarrow>
      (\<forall>x. ALWAYS x \<in> set (build_constraint_list (trajectory_constraints gp)) \<longrightarrow>
            \<not> is_false (simplify (substitute x ?I))) \<and>
      (\<forall>x y. SOMETIME_BEFORE x y \<in> set (build_constraint_list (trajectory_constraints gp)) \<longrightarrow>
            \<not> is_true (simplify (substitute x ?I))) \<and>
      initial_values out =
        fold (\<lambda>init_val iv. iv(init_val \<mapsto> TRUE))
          (map (\<lambda>(n, c). FluentExp (monitor_name c n))
             (filter (\<lambda>(n, c). initially_true ?I c)
                (enumerate 0 (filter (\<lambda>c. \<not> is_always c)
                   (build_constraint_list (trajectory_constraints gp))))))
          (initial_values gp)"
    using compile_initial_checks by blast
qed

theorem ground_initial_state_content_witness:
  "FluentExp ''r'' \<in> dom (ground_initial_state (actions sa_problem) (initial_values sa_problem)) \<and>
   FluentExp ''q'' \<notin> dom (ground_initial_state (actions sa_problem) (initial_values sa_problem)) \<and>
   simplify (substitute (FluentExp ''q'')
       (ground_initial_state (actions sa_problem) (initial_values sa_problem))) = FluentExp ''q'' \<and>
   FluentExp ''p'' \<notin> dom (ground_initial_state (actions sometime_problem) (initial_values sometime_problem)) \<and>
   simplify (substitute (FluentExp ''p'')
       (ground_initial_state (actions sometime_problem) (initial_values sometime_problem))) = FluentExp ''p'' \<and>
   evaluate_constraint (SOMETIME_AFTER (NOT (FluentExp ''r'')) (FluentExp ''q''))
       (ground_initial_state (actions sa_problem) (initial_values sa_problem))
     = Inr (Some HOLD, Node (FluentExp ''q'')) \<and>
   evaluate_constraint (SOMETIME (FluentExp ''p''))
       (ground_initial_state (actions sometime_problem) (initial_values sometime_problem))
     = Inr (Some HOLD, Node (FluentExp ''p'')) \<and>
   \<not> initially_true (ground_initial_state (actions sometime_problem) (initial_values sometime_problem))
       (SOMETIME (FluentExp ''p'')) \<and>
   monitoring_step (ground_initial_state (actions sometime_problem) (initial_values sometime_problem))
       (ALWAYS (FluentExp ''p'')) ([], 0, [], Map.empty) = Inr ([], 0, [], Map.empty)"
proof -
  let ?I = "ground_initial_state (actions sa_problem) (initial_values sa_problem)"
  let ?J = "ground_initial_state (actions sometime_problem) (initial_values sometime_problem)"
  note A = ground_initial_state_content [of sa_problem]
  note B = ground_initial_state_content [of sometime_problem]
  have w: "written_by (actions sa_problem) = {FluentExp ''r''}"
    by (simp add: written_by_def written_def sa_problem_def unconditional_def)
  have w': "written_by (actions sometime_problem) = {FluentExp ''g''}"
    by (simp add: written_by_def written_def sometime_problem_def set_g_def unconditional_def)
  have domI: "dom ?I = {k \<in> written_by (actions sa_problem). initial_values sa_problem k = Some TRUE}"
    using A by (rule conjunct1)
  have domJ: "dom ?J = {k \<in> written_by (actions sometime_problem). initial_values sometime_problem k = Some TRUE}"
    using B by (rule conjunct1)
  have r: "FluentExp ''r'' \<in> dom ?I"
    unfolding domI w by (simp add: sa_problem_def)
  have q: "FluentExp ''q'' \<notin> dom ?I"
    unfolding domI w by simp
  have p: "FluentExp ''p'' \<notin> dom ?J"
    unfolding domJ w' by simp
  have atomsI: "\<forall>f. FluentExp f \<notin> dom ?I \<longrightarrow> simplify (substitute (FluentExp f) ?I) = FluentExp f"
    using A by (rule conjunct2 [THEN conjunct2, THEN conjunct1])
  have atomsJ: "\<forall>f. FluentExp f \<notin> dom ?J \<longrightarrow> simplify (substitute (FluentExp f) ?J) = FluentExp f"
    using B by (rule conjunct2 [THEN conjunct2, THEN conjunct1])
  have sq: "simplify (substitute (FluentExp ''q'') ?I) = FluentExp ''q''"
    using atomsI q by blast
  have sp: "simplify (substitute (FluentExp ''p'') ?J) = FluentExp ''p''"
    using atomsJ p by blast
  have stepJ: "\<forall>x st. monitoring_step ?J (ALWAYS x) st =
      (if is_false (simplify (substitute x ?J))
       then Inl (UPProblemDefinitionError
              ''PROBLEM NOT SOLVABLE: an always is violated in the initial state'')
       else Inr st)"
    using B by (rule conjunct2 [THEN conjunct2, THEN conjunct2, THEN conjunct2, THEN conjunct2,
           THEN conjunct1])
  have evI: "\<forall>x y.
      evaluate_constraint (SOMETIME x) ?I = Inr (Some HOLD, Node (simplify (substitute x ?I))) \<and>
      evaluate_constraint (AT_MOST_ONCE x) ?I = Inr (Some SEEN_PHI, Node (simplify (substitute x ?I))) \<and>
      evaluate_constraint (SOMETIME_BEFORE x y) ?I = Inr (Some SEEN_PSI, Node (simplify (substitute y ?I))) \<and>
      evaluate_constraint (SOMETIME_AFTER x y) ?I = Inr (Some HOLD, Node (simplify (substitute y ?I)))"
    using A by (rule conjunct2 [THEN conjunct2, THEN conjunct2, THEN conjunct2, THEN conjunct2,
           THEN conjunct2, THEN conjunct2, THEN conjunct1])
  have evJ: "\<forall>x y.
      evaluate_constraint (SOMETIME x) ?J = Inr (Some HOLD, Node (simplify (substitute x ?J))) \<and>
      evaluate_constraint (AT_MOST_ONCE x) ?J = Inr (Some SEEN_PHI, Node (simplify (substitute x ?J))) \<and>
      evaluate_constraint (SOMETIME_BEFORE x y) ?J = Inr (Some SEEN_PSI, Node (simplify (substitute y ?J))) \<and>
      evaluate_constraint (SOMETIME_AFTER x y) ?J = Inr (Some HOLD, Node (simplify (substitute y ?J)))"
    using B by (rule conjunct2 [THEN conjunct2, THEN conjunct2, THEN conjunct2, THEN conjunct2,
           THEN conjunct2, THEN conjunct2, THEN conjunct1])
  have itJ: "\<forall>x y.
      initially_true ?J (SOMETIME x) = is_true (simplify (substitute x ?J)) \<and>
      initially_true ?J (AT_MOST_ONCE x) = is_true (simplify (substitute x ?J)) \<and>
      initially_true ?J (SOMETIME_BEFORE x y) = is_true (simplify (substitute y ?J)) \<and>
      initially_true ?J (SOMETIME_AFTER x y) = is_true (simplify (substitute y ?J))"
    using B by (rule conjunct2 [THEN conjunct2, THEN conjunct2, THEN conjunct2, THEN conjunct2,
           THEN conjunct2, THEN conjunct2, THEN conjunct2, THEN conjunct1])
  have e1: "evaluate_constraint (SOMETIME_AFTER (NOT (FluentExp ''r'')) (FluentExp ''q'')) ?I
     = Inr (Some HOLD, Node (FluentExp ''q''))"
    using evI sq by metis
  have e2: "evaluate_constraint (SOMETIME (FluentExp ''p'')) ?J = Inr (Some HOLD, Node (FluentExp ''p''))"
    using evJ sp by metis
  have e3: "\<not> initially_true ?J (SOMETIME (FluentExp ''p''))"
    using itJ sp by (metis is_true.simps(3))
  have e4: "monitoring_step ?J (ALWAYS (FluentExp ''p'')) ([], 0, [], Map.empty) = Inr ([], 0, [], Map.empty)"
    using stepJ sp by (metis is_false.simps(3))
  from r q sq p sp e1 e2 e3 e4 show ?thesis by (intro conjI)
qed

section \<open>Regression through an action that does not touch the formula\<close>

lemma gamma_loop_untouched:
  "\<forall>eff \<in> set effs. literal \<noteq> fluent eff \<and> literal \<noteq> em_Not (fluent eff)
   \<Longrightarrow> gamma_loop literal effs disjunction
       = (if disjunction = [] then PyBool False else Node (em_Or disjunction))"
  by (induction effs arbitrary: disjunction) (simp_all add: Let_def)

lemma gamma_untouched:
  assumes "wf_action a" and "FluentExp f \<notin> written a"
  shows "gamma (FluentExp f) a = PyBool False"
    and "gamma (em_Not (FluentExp f)) a = PyBool False"
proof -
  have fl: "\<forall>eff \<in> set (effects a). is_fluent_exp (fluent eff) \<and> fluent eff \<noteq> FluentExp f"
    using assms by (force simp: wf_action_def written_def list_all_iff image_iff)
  have "\<forall>eff \<in> set (effects a).
          FluentExp f \<noteq> fluent eff \<and> FluentExp f \<noteq> em_Not (fluent eff)"
    using fl by (auto simp: em_Not_def)
  then show "gamma (FluentExp f) a = PyBool False"
    by (simp add: gamma_def gamma_loop_untouched)
  have "\<forall>eff \<in> set (effects a).
          em_Not (FluentExp f) \<noteq> fluent eff \<and> em_Not (FluentExp f) \<noteq> em_Not (fluent eff)"
  proof
    fix eff assume "eff \<in> set (effects a)"
    with fl have "is_fluent_exp (fluent eff)" "fluent eff \<noteq> FluentExp f" by auto
    then show "em_Not (FluentExp f) \<noteq> fluent eff \<and> em_Not (FluentExp f) \<noteq> em_Not (fluent eff)"
      by (cases "fluent eff") (auto simp: em_Not_def)
  qed
  then show "gamma (em_Not (FluentExp f)) a = PyBool False"
    by (simp add: gamma_def gamma_loop_untouched)
qed

lemma gamma_substitution_untouched:
  assumes "wf_action a" and "FluentExp f \<notin> written a"
  shows "gamma_substitution (FluentExp f) a = OR [FALSE, AND [FluentExp f, NOT FALSE]]"
  using gamma_untouched [OF assms]
  by (simp add: gamma_substitution_def Let_def em_Or_def em_And_def em_Not_def)

lemma simplify_untouched_atom:
  "simplify (OR [FALSE, AND [FluentExp f, NOT FALSE]]) = FluentExp f"
  by (simp add: walk_or_def walk_and_def)

lemma em_And_many: "2 \<le> length xs \<Longrightarrow> em_And xs = AND xs"
  by (cases xs; auto simp: em_And_def split: list.splits)

lemma em_Or_many: "2 \<le> length xs \<Longrightarrow> em_Or xs = OR xs"
  by (cases xs; auto simp: em_Or_def split: list.splits)

lemma regression_list_untouched:
  assumes "\<And>x. x \<in> set xs \<Longrightarrow> \<exists>r. regression x a = Inr r \<and> simplify r = simplify x"
  shows "\<exists>rs. regression_list xs a = Inr rs \<and> length rs = length xs \<and>
              map simplify rs = map simplify xs"
  using assms
proof (induction xs)
  case Nil
  then show ?case by simp
next
  case (Cons x xs)
  from Cons.prems [of x] obtain r where r: "regression x a = Inr r" "simplify r = simplify x"
    by auto
  from Cons.IH Cons.prems obtain rs where
    rs: "regression_list xs a = Inr rs" "length rs = length xs" "map simplify rs = map simplify xs"
    by auto
  from r rs show ?case by simp
qed

lemma regression_untouched:
  assumes wf: "wf_action a"
  shows "bool_formula psi \<Longrightarrow> set (fluent_exps psi) \<inter> written a = {}
         \<Longrightarrow> \<exists>r. regression psi a = Inr r \<and> simplify r = simplify psi"
proof (induction psi)
  case (BoolConst b)
  then show ?case by simp
next
  case (FluentExp f)
  then have "FluentExp f \<notin> written a" by simp
  from gamma_substitution_untouched [OF wf this] show ?case
    using simplify_untouched_atom [of f] by simp
next
  case (NOT psi)
  then obtain r where "regression psi a = Inr r" "simplify r = simplify psi" by auto
  then show ?case by (simp add: em_Not_def)
next
  case (AND xs)
  have "\<And>x. x \<in> set xs \<Longrightarrow> \<exists>r. regression x a = Inr r \<and> simplify r = simplify x"
    using AND by (auto simp: list_all_iff)
  from regression_list_untouched [OF this] obtain rs where
    rs: "regression_list xs a = Inr rs" "length rs = length xs" "map simplify rs = map simplify xs"
    by blast
  moreover from AND.prems rs have "em_And rs = AND rs" by (simp add: em_And_many)
  ultimately show ?case by simp
next
  case (OR xs)
  have "\<And>x. x \<in> set xs \<Longrightarrow> \<exists>r. regression x a = Inr r \<and> simplify r = simplify x"
    using OR by (auto simp: list_all_iff)
  from regression_list_untouched [OF this] obtain rs where
    rs: "regression_list xs a = Inr rs" "length rs = length xs" "map simplify rs = map simplify xs"
    by blast
  moreover from OR.prems rs have "em_Or rs = OR rs" by (simp add: em_Or_many)
  ultimately show ?case by simp
qed simp_all

lemma relevancy_inner:
  assumes "\<forall>k l. rd k = Some l \<longrightarrow> (\<forall>x \<in> set l. k \<in> set (free_vars x))"
    and "set atoms \<subseteq> set (free_vars c)"
  shows "\<forall>k l. fold (\<lambda>atom rd. rd(atom \<mapsto> (case rd atom of None \<Rightarrow> [] | Some l \<Rightarrow> l) @ [c]))
                  atoms rd k = Some l \<longrightarrow> (\<forall>x \<in> set l. k \<in> set (free_vars x))"
  using assms
proof (induction atoms arbitrary: rd)
  case Nil
  then show ?case by simp
next
  case (Cons atom atoms)
  let ?rd = "rd(atom \<mapsto> (case rd atom of None \<Rightarrow> [] | Some l \<Rightarrow> l) @ [c])"
  have "\<forall>k l. ?rd k = Some l \<longrightarrow> (\<forall>x \<in> set l. k \<in> set (free_vars x))"
  proof (intro allI impI ballI)
    fix k l x assume l: "?rd k = Some l" and x: "x \<in> set l"
    show "k \<in> set (free_vars x)"
    proof (cases "k = atom")
      case True
      with l have "l = (case rd atom of None \<Rightarrow> [] | Some l \<Rightarrow> l) @ [c]" by simp
      with x have "x = c \<or> (\<exists>l'. rd atom = Some l' \<and> x \<in> set l')"
        by (cases "rd atom") auto
      with Cons.prems True show ?thesis by auto
    next
      case False
      with l have "rd k = Some l" by simp
      with Cons.prems(1) x show ?thesis by blast
    qed
  qed
  moreover have "set atoms \<subseteq> set (free_vars c)" using Cons.prems by simp
  ultimately have "\<forall>k l. fold (\<lambda>atom rd. rd(atom \<mapsto> (case rd atom of None \<Rightarrow> [] | Some l \<Rightarrow> l) @ [c]))
                  atoms ?rd k = Some l \<longrightarrow> (\<forall>x \<in> set l. k \<in> set (free_vars x))"
    by (rule Cons.IH)
  then show ?case by (simp only: fold_simps)
qed

lemma relevancy_outer:
  assumes "\<forall>k l. rd k = Some l \<longrightarrow> (\<forall>x \<in> set l. k \<in> set (free_vars x))"
  shows "\<forall>k l. fold (\<lambda>c relevancy_dict.
             fold (\<lambda>atom rd. rd(atom \<mapsto> (case rd atom of None \<Rightarrow> [] | Some l \<Rightarrow> l) @ [c]))
                  (free_vars c) relevancy_dict) C rd k = Some l
          \<longrightarrow> (\<forall>x \<in> set l. k \<in> set (free_vars x))"
  using assms
proof (induction C arbitrary: rd)
  case Nil
  then show ?case by simp
next
  case (Cons c C)
  have "\<forall>k l. fold (\<lambda>atom rd. rd(atom \<mapsto> (case rd atom of None \<Rightarrow> [] | Some l \<Rightarrow> l) @ [c]))
                  (free_vars c) rd k = Some l \<longrightarrow> (\<forall>x \<in> set l. k \<in> set (free_vars x))"
    by (rule relevancy_inner [OF Cons.prems]) simp
  from Cons.IH [OF this] show ?case by (simp only: fold_simps)
qed

lemma build_relevancy_dict_sound:
  "build_relevancy_dict C k = Some l \<Longrightarrow> x \<in> set l \<Longrightarrow> k \<in> set (fluent_exps x)"
proof -
  have "\<forall>k l. Map.empty k = Some l \<longrightarrow> (\<forall>x \<in> set l. k \<in> set (free_vars x))"
    by simp
  from relevancy_outer [OF this, of C] have
    "\<forall>k l. build_relevancy_dict C k = Some l \<longrightarrow> (\<forall>x \<in> set l. k \<in> set (free_vars x))"
    unfolding build_relevancy_dict_def .
  then show "build_relevancy_dict C k = Some l \<Longrightarrow> x \<in> set l \<Longrightarrow> k \<in> set (fluent_exps x)"
    by (auto simp: free_vars_def)
qed

lemma relevant_inner:
  "set (fold (\<lambda>c rel. if c \<notin> set rel then rel @ [c] else rel) cs rel) = set rel \<union> set cs"
  by (induction cs arbitrary: rel) auto

lemma relevant_outer:
  "set (fold (\<lambda>eff relevant_constrains.
             fold (\<lambda>c rel. if c \<notin> set rel then rel @ [c] else rel)
                  (case rd (fluent eff) of None \<Rightarrow> [] | Some l \<Rightarrow> l)
                  relevant_constrains) effs rel)
   = set rel \<union> (\<Union>eff \<in> set effs. set (case rd (fluent eff) of None \<Rightarrow> [] | Some l \<Rightarrow> l))"
proof (induction effs arbitrary: rel)
  case Nil
  then show ?case by simp
next
  case (Cons eff effs)
  show ?case
    unfolding fold_simps Cons.IH relevant_inner by auto
qed

lemma relevant_constraint_touched:
  assumes "c \<in> set (get_relevant_constraints a (build_relevancy_dict C))"
  shows "set (fluent_exps c) \<inter> written a \<noteq> {}"
proof -
  from assms obtain eff where eff: "eff \<in> set (effects a)"
    and c: "c \<in> set (case build_relevancy_dict C (fluent eff) of None \<Rightarrow> [] | Some l \<Rightarrow> l)"
    by (auto simp: get_relevant_constraints_def relevant_outer)
  then obtain l where "build_relevancy_dict C (fluent eff) = Some l" "c \<in> set l"
    by (cases "build_relevancy_dict C (fluent eff)") auto
  from build_relevancy_dict_sound [OF this] eff show ?thesis
    by (auto simp: written_def)
qed

text \<open>
  Claim C6 (regression fixed point). Let \<open>a\<close> be a well-formed action and \<open>psi\<close> a formula
  built from constants, fluent atoms, negation, conjunction and disjunction, none of whose
  fluents an effect of \<open>a\<close> writes. Then regression succeeds and its simplified result is the
  simplified \<open>psi\<close>. Consequently nothing is emitted for a constraint that \<open>a\<close> does not touch:
  such a constraint is not among the relevant constraints of \<open>a\<close>, and every rewriting rule,
  applied to simplified arguments that \<open>a\<close> does not touch, returns no precondition and leaves
  the list of new effects as it is.
\<close>

theorem regression_fixed_point:
  assumes "wf_action a" and "bool_formula psi" and "set (fluent_exps psi) \<inter> written a = {}"
  shows "(\<exists>r. regression psi a = Inr r \<and> simplify r = simplify psi) \<and>
         (\<forall>C c. set (fluent_exps c) \<inter> written a = {} \<longrightarrow>
                c \<notin> set (get_relevant_constraints a (build_relevancy_dict C))) \<and>
         (simplify psi = psi \<longrightarrow>
            manage_always_compilation psi a = Inr (None, False) \<and>
            (\<forall>m E. manage_amo_compilation psi m a E = Inr ((None, False), E) \<and>
                   manage_sometime_compilation psi m a E = Inr E) \<and>
            (\<forall>chi m E. bool_formula chi \<and> set (fluent_exps chi) \<inter> written a = {} \<and>
                       simplify chi = chi \<longrightarrow>
                   manage_sb_compilation psi chi m a E = Inr ((None, False), E) \<and>
                   manage_sa_compilation psi chi m a E = Inr E))"
proof -
  from regression_untouched [OF assms] obtain r where
    r: "regression psi a = Inr r" "simplify r = simplify psi"
    by blast
  have 2: "\<forall>C c. set (fluent_exps c) \<inter> written a = {} \<longrightarrow>
                c \<notin> set (get_relevant_constraints a (build_relevancy_dict C))"
    using relevant_constraint_touched by blast
  have 3: "manage_always_compilation psi a = Inr (None, False)" if "simplify psi = psi"
    using r that by (simp add: manage_always_compilation_def)
  have 4: "manage_amo_compilation psi m a E = Inr ((None, False), E)" if "simplify psi = psi" for m E
    using r that by (simp add: manage_amo_compilation_def)
  have 5: "manage_sometime_compilation psi m a E = Inr E" if "simplify psi = psi" for m E
    using r that by (simp add: manage_sometime_compilation_def)
  have 6: "manage_sb_compilation psi chi m a E = Inr ((None, False), E) \<and>
           manage_sa_compilation psi chi m a E = Inr E"
    if "simplify psi = psi" and chi: "bool_formula chi" "set (fluent_exps chi) \<inter> written a = {}"
      "simplify chi = chi" for chi m E
  proof -
    from regression_untouched [OF assms(1) chi(1,2)] obtain r' where
      "regression chi a = Inr r'" "simplify r' = simplify chi"
      by blast
    with r that show ?thesis
      by (simp add: manage_sb_compilation_def manage_sa_compilation_def)
  qed
  from r 2 3 4 5 6 show ?thesis by blast
qed

lemma set_g_untouched:
  "wf_action set_g"
  "bool_formula (OR [FluentExp ''p'', NOT (FluentExp ''q'')])"
  "set (fluent_exps (OR [FluentExp ''p'', NOT (FluentExp ''q'')])) \<inter> written set_g = {}"
  by (simp_all add: wf_action_def written_def set_g_def unconditional_def)

theorem regression_fixed_point_witness:
  "(\<exists>r. regression (OR [FluentExp ''p'', NOT (FluentExp ''q'')]) set_g = Inr r \<and>
        simplify r = OR [FluentExp ''p'', NOT (FluentExp ''q'')]) \<and>
   manage_always_compilation (OR [FluentExp ''p'', NOT (FluentExp ''q'')]) set_g = Inr (None, False) \<and>
   ALWAYS (OR [FluentExp ''p'', NOT (FluentExp ''q'')])
     \<notin> set (get_relevant_constraints set_g
              (build_relevancy_dict [ALWAYS (OR [FluentExp ''p'', NOT (FluentExp ''q'')])]))"
proof -
  have s: "simplify (OR [FluentExp ''p'', NOT (FluentExp ''q'')])
             = OR [FluentExp ''p'', NOT (FluentExp ''q'')]"
    by code_simp
  have u: "set (fluent_exps (ALWAYS (OR [FluentExp ''p'', NOT (FluentExp ''q'')]))) \<inter> written set_g = {}"
    using set_g_untouched(3) by simp
  from regression_fixed_point [OF set_g_untouched] s u show ?thesis
    by metis
qed

section \<open>The goal of the output problem\<close>

lemma conjuncts_fluent: "is_fluent_exp x \<Longrightarrow> conjuncts x = {x}"
  by (cases x) (simp_all add: conjuncts_def)

lemma fluent_not_true: "is_fluent_exp a \<Longrightarrow> \<not> is_true a"
  by (cases a) simp_all

lemma conjuncts_parts: "conjuncts a = (if is_and a then set (args a) else {a})"
  by (cases a) (simp_all add: conjuncts_def)

lemma nary_insert_set: "nary_insert acc ss = Some res \<Longrightarrow> set res = set acc \<union> set ss"
  by (induction ss arbitrary: acc) (auto split: if_splits)

lemma and_scan_set:
  "and_scan acc as = Some res \<Longrightarrow>
   set acc \<subseteq> set res \<and> (\<forall>a \<in> set as. \<not> is_true a \<longrightarrow> conjuncts a \<subseteq> set res)"
proof (induction as arbitrary: acc)
  case Nil
  then show ?case by simp
next
  case (Cons a as)
  show ?case
  proof (cases "is_true a")
    case True
    with Cons.prems have "and_scan acc as = Some res" by simp
    from Cons.IH [OF this] True show ?thesis by simp
  next
    case False
    with Cons.prems obtain acc' where
      ins: "nary_insert acc (if is_and a then args a else [a]) = Some acc'"
      and rest: "and_scan acc' as = Some res"
      by (auto split: if_splits option.splits)
    from nary_insert_set [OF ins] have "set acc' = set acc \<union> conjuncts a"
      by (simp add: conjuncts_parts)
    with Cons.IH [OF rest] False show ?thesis by auto
  qed
qed

lemma walk_and_keeps:
  assumes "walk_and as \<noteq> FALSE" and "a \<in> set as" and "\<not> is_true a"
    and "x \<in> conjuncts a" and "is_fluent_exp x"
  shows "x \<in> conjuncts (walk_and as)"
proof (cases "length as = 2 \<and> as ! 0 = as ! 1")
  case True
  then obtain u where "as = [u, u]"
    by (cases as; cases "tl as"; auto)
  with assms show ?thesis by (simp add: walk_and_def)
next
  case False
  with assms(1) obtain res where res: "and_scan [] as = Some res"
    by (cases "and_scan [] as") (auto simp: walk_and_def)
  from and_scan_set [OF res] assms have x: "x \<in> set res" by blast
  show ?thesis
  proof (cases res)
    case Nil
    with x show ?thesis by simp
  next
    case (Cons y ys)
    show ?thesis
    proof (cases ys)
      case Nil
      with Cons x have "y = x" by simp
      with False res \<open>res = y # ys\<close> \<open>ys = []\<close> assms(5) show ?thesis
        by (auto simp: walk_and_def conjuncts_fluent)
    next
      case (Cons z zs)
      with False res \<open>res = y # ys\<close> x show ?thesis
        by (auto simp: walk_and_def conjuncts_def)
    qed
  qed
qed

lemma nary_insert_fluents:
  "list_all is_fluent_exp acc \<Longrightarrow> list_all is_fluent_exp ss \<Longrightarrow>
   \<exists>res. nary_insert acc ss = Some res \<and> list_all is_fluent_exp res"
proof (induction ss arbitrary: acc)
  case Nil
  then show ?case by simp
next
  case (Cons s ss)
  from Cons.prems obtain f where s: "s = FluentExp f" by (cases s) auto
  have "walk_not s \<notin> set acc"
    using Cons.prems(1) s by (auto simp: list_all_iff)
  moreover have "list_all is_fluent_exp (if s \<in> set acc then acc else acc @ [s])"
    using Cons.prems by simp
  moreover have "list_all is_fluent_exp ss" using Cons.prems by simp
  ultimately show ?case using Cons.IH by simp
qed

lemma and_scan_fluents:
  "list_all is_fluent_exp acc \<Longrightarrow> list_all is_fluent_exp as \<Longrightarrow>
   \<exists>res. and_scan acc as = Some res \<and> list_all is_fluent_exp res"
proof (induction as arbitrary: acc)
  case Nil
  then show ?case by simp
next
  case (Cons a as)
  from Cons.prems obtain f where a: "a = FluentExp f" by (cases a) auto
  from nary_insert_fluents [of acc "[a]"] Cons.prems obtain acc' where
    acc': "nary_insert acc [a] = Some acc'" "list_all is_fluent_exp acc'"
    by auto
  from Cons.IH [OF acc'(2)] Cons.prems obtain res where
    "and_scan acc' as = Some res" "list_all is_fluent_exp res"
    by auto
  with a acc' show ?case by simp
qed

lemma simplify_fluents: "list_all is_fluent_exp ms \<Longrightarrow> map simplify ms = ms"
  by (induction ms) (auto elim: is_fluent_exp.elims)

lemma walk_and_fluents:
  assumes "list_all is_fluent_exp ms" and "ms \<noteq> []"
  shows "\<not> is_true (walk_and ms) \<and> walk_and ms \<noteq> FALSE"
proof (cases "length ms = 2 \<and> ms ! 0 = ms ! 1")
  case True
  then obtain u where "ms = [u, u]"
    by (cases ms; cases "tl ms"; auto)
  with assms show ?thesis
    by (cases u) (simp_all add: walk_and_def)
next
  case False
  from and_scan_fluents [of "[]" ms] assms obtain res where
    res: "and_scan [] ms = Some res" "list_all is_fluent_exp res"
    by auto
  from and_scan_set [OF res(1)] assms have ne: "res \<noteq> []"
    by (cases ms) (auto simp: conjuncts_fluent fluent_not_true)
  show ?thesis
  proof (cases res)
    case Nil
    with ne show ?thesis by simp
  next
    case (Cons y ys)
    with res(2) obtain f where "y = FluentExp f" by (cases y) auto
    with False res Cons show ?thesis
      by (cases ys) (auto simp: walk_and_def)
  qed
qed

lemma monitors_conjunction:
  assumes fl: "list_all is_fluent_exp ms" and ne: "ms \<noteq> []"
  shows "\<not> is_true (simplify (em_And ms)) \<and> simplify (em_And ms) \<noteq> FALSE \<and>
         set ms \<subseteq> conjuncts (simplify (em_And ms))"
proof (cases ms)
  case Nil
  with ne show ?thesis by simp
next
  case (Cons m ms')
  note ms = Cons
  show ?thesis
  proof (cases ms')
    case Nil
    from fl ms obtain f where "m = FluentExp f" by (cases m) auto
    with ms Nil show ?thesis by (simp add: em_And_def conjuncts_def)
  next
    case (Cons m' ms'')
    with ms have e: "em_And ms = AND ms" by (simp add: em_And_def)
    have w: "simplify (em_And ms) = walk_and ms"
      using e simplify_fluents [OF fl] by simp
    have "x \<in> conjuncts (walk_and ms)" if "x \<in> set ms" for x
    proof -
      from that fl have fx: "is_fluent_exp x" by (simp add: list_all_iff)
      from walk_and_fluents [OF fl ne] have "walk_and ms \<noteq> FALSE" by simp
      from walk_and_keeps [OF this that fluent_not_true [OF fx] _ fx] fx
      show ?thesis by (simp add: conjuncts_fluent)
    qed
    with walk_and_fluents [OF fl ne] w show ?thesis by auto
  qed
qed

lemma goal_keeps_monitors:
  assumes fl: "list_all is_fluent_exp ms"
    and nf: "simplify (em_And (gs @ [em_And ms])) \<noteq> FALSE"
  shows "set ms \<subseteq> conjuncts (simplify (em_And (gs @ [em_And ms])))"
proof (cases "ms = []")
  case True
  then show ?thesis by simp
next
  case False
  note mc = monitors_conjunction [OF fl False]
  show ?thesis
  proof (cases gs)
    case Nil
    with mc show ?thesis by (simp add: em_And_def)
  next
    case (Cons g gs')
    then have e: "em_And (gs @ [em_And ms]) = AND (gs @ [em_And ms])"
      by (cases gs') (simp_all add: em_And_def)
    let ?as = "map simplify gs @ [simplify (em_And ms)]"
    have w: "simplify (em_And (gs @ [em_And ms])) = walk_and ?as"
      using e by simp
    have "x \<in> conjuncts (walk_and ?as)" if "x \<in> set ms" for x
    proof -
      from that fl have fx: "is_fluent_exp x" by (simp add: list_all_iff)
      from nf w have "walk_and ?as \<noteq> FALSE" by simp
      moreover have "simplify (em_And ms) \<in> set ?as" by simp
      moreover have "\<not> is_true (simplify (em_And ms))" using mc by simp
      moreover have "x \<in> conjuncts (simplify (em_And ms))" using mc that by blast
      ultimately show ?thesis using fx by (rule walk_and_keeps)
    qed
    with w show ?thesis by auto
  qed
qed

lemma lookup_all_rel:
  "lookup_all d cs = Inr ms \<Longrightarrow> list_all2 (\<lambda>c m. d c = Some m) cs ms"
  by (induction cs arbitrary: ms) (auto split: option.splits sum.splits)

lemma list_all2_right: "list_all2 P xs ys \<Longrightarrow> y \<in> set ys \<Longrightarrow> \<exists>x \<in> set xs. P x y"
  by (induction rule: list_all2_induct) auto

lemma compile_goal:
  assumes "compile d0 n gp = Inr (out, d)"
  shows "\<exists>I_prime F_prime monitors.
           get_monitoring_atoms d0 (build_constraint_list (trajectory_constraints gp))
             (ground_initial_state (actions gp) (initial_values gp)) = Inr (I_prime, F_prime, d) \<and>
           lookup_all d (get_landmark_constraints (build_constraint_list (trajectory_constraints gp)))
             = Inr monitors \<and>
           goals out = [simplify (em_And (goals gp @ [em_And monitors]))]"
  using assms by (auto simp: compile_def Let_def split: sum.splits prod.splits)

text \<open>
  Claim C8, amended (landmark goal augmentation). When \<open>compile\<close> succeeds, the goal of the
  output problem is the simplified conjunction of the original goals followed by the
  conjunction of the monitors of the sometime and sometime-after constraints of the constraint
  list, in the order of that list; no other constraint contributes. Each of these monitors is a
  conjunct of the output goal unless the conjunction simplifies to the constant false.
\<close>

theorem goal_augmentation:
  assumes "compile d0 n gp = Inr (out, d)"
  shows "\<exists>monitors.
           list_all2 (\<lambda>c m. d c = Some m)
             (filter (\<lambda>c. is_sometime c \<or> is_sometime_after c)
                (build_constraint_list (trajectory_constraints gp))) monitors \<and>
           goals out = [simplify (em_And (goals gp @ [em_And monitors]))] \<and>
           (goals out \<noteq> [FALSE] \<longrightarrow> (\<forall>m \<in> set monitors. m \<in> conjuncts (hd (goals out))))"
proof -
  let ?C = "build_constraint_list (trajectory_constraints gp)"
  from compile_goal [OF assms] obtain I_prime F_prime monitors where
    g: "get_monitoring_atoms d0 ?C (ground_initial_state (actions gp) (initial_values gp))
          = Inr (I_prime, F_prime, d)"
    and l: "lookup_all d (get_landmark_constraints ?C) = Inr monitors"
    and G: "goals out = [simplify (em_And (goals gp @ [em_And monitors]))]"
    by blast
  from lookup_all_rel [OF l] have rel:
    "list_all2 (\<lambda>c m. d c = Some m) (filter (\<lambda>c. is_sometime c \<or> is_sometime_after c) ?C) monitors"
    by (simp add: get_landmark_constraints_def)
  have fl: "list_all is_fluent_exp monitors"
    unfolding list_all_iff
  proof
    fix m assume "m \<in> set monitors"
    from list_all2_right [OF rel this]
    obtain c where c: "c \<in> set (filter (\<lambda>c. is_sometime c \<or> is_sometime_after c) ?C)"
      and m: "d c = Some m"
      by blast
    from c have cC: "c \<in> set ?C" and kind: "is_sometime c \<or> is_sometime_after c"
      by simp_all
    from kind have na: "\<not> is_always c" by (cases c) simp_all
    from monitors_are_fluents [OF g cC na] m show "is_fluent_exp m" by auto
  qed
  have keep: "\<forall>m \<in> set monitors. m \<in> conjuncts (hd (goals out))" if "goals out \<noteq> [FALSE]"
  proof -
    let ?G = "simplify (em_And (goals gp @ [em_And monitors]))"
    from that G have "?G \<noteq> FALSE" by (simp only: list.inject simp_thms)
    from goal_keeps_monitors [OF fl this] have "set monitors \<subseteq> conjuncts ?G" .
    moreover from G have "hd (goals out) = ?G" by (simp only: list.sel)
    ultimately show ?thesis by (simp only: subset_iff) blast
  qed
  from rel G keep show ?thesis by blast
qed

text \<open>
  Claim C8 as stated says that every landmark monitor occurs in the output goal. With the
  constant false as original goal the conjunction simplifies to false, and the monitor
  \<open>hold-0\<close> of \<open>sometime(p)\<close> does not occur in it.
\<close>

theorem goal_collapses_to_false:
  "(case compile Map.empty ''landmark'' false_goal_problem of
      Inl e \<Rightarrow> False
    | Inr (out, d) \<Rightarrow>
        build_constraint_list (trajectory_constraints false_goal_problem)
          = [SOMETIME (FluentExp ''p'')] \<and>
        d (SOMETIME (FluentExp ''p'')) = Some (FluentExp ''hold-0'') \<and>
        goals out = [FALSE] \<and>
        FluentExp ''hold-0'' \<notin> conjuncts (hd (goals out)))"
  by code_simp

lemma landmark_compiles:
  "(case compile Map.empty ''landmark'' landmark_problem of
      Inl e \<Rightarrow> False
    | Inr (out, d) \<Rightarrow>
        goals out = [AND [FluentExp ''p'', FluentExp ''hold-0'']] \<and>
        d (SOMETIME (FluentExp ''p'')) = Some (FluentExp ''hold-0''))"
  by code_simp

lemma landmark_constraints:
  "filter (\<lambda>c. is_sometime c \<or> is_sometime_after c)
     (build_constraint_list (trajectory_constraints landmark_problem)) = [SOMETIME (FluentExp ''p'')]"
  by code_simp

theorem goal_augmentation_witness:
  "\<exists>out d. compile Map.empty ''landmark'' landmark_problem = Inr (out, d) \<and>
     goals out = [AND [FluentExp ''p'', FluentExp ''hold-0'']] \<and>
     d (SOMETIME (FluentExp ''p'')) = Some (FluentExp ''hold-0'') \<and>
     FluentExp ''hold-0'' \<in> conjuncts (hd (goals out))"
proof -
  from landmark_compiles obtain out d where
    c: "compile Map.empty ''landmark'' landmark_problem = Inr (out, d)"
    and g: "goals out = [AND [FluentExp ''p'', FluentExp ''hold-0'']]"
    and m: "d (SOMETIME (FluentExp ''p'')) = Some (FluentExp ''hold-0'')"
    by (auto split: sum.splits)
  from goal_augmentation [OF c] obtain monitors where
    rel: "list_all2 (\<lambda>c m. d c = Some m)
             (filter (\<lambda>c. is_sometime c \<or> is_sometime_after c)
                (build_constraint_list (trajectory_constraints landmark_problem))) monitors"
    and keep: "goals out \<noteq> [FALSE] \<longrightarrow> (\<forall>m \<in> set monitors. m \<in> conjuncts (hd (goals out)))"
    by blast
  from rel m have "monitors = [FluentExp ''hold-0'']"
    unfolding landmark_constraints by (auto simp: list_all2_Cons1)
  with keep g have "FluentExp ''hold-0'' \<in> conjuncts (hd (goals out))" by simp
  with c g m show ?thesis by blast
qed

end
